theory Spec2Isabelle
  imports Main "HOL-Library.Sublist" "HOL-Library.AList"
begin

section \<open>Strings, substring search and the three patterns of modem.go\<close>

text \<open>
  A Go string is a sequence of bytes, here a \<^typ>\<open>string\<close>. The bytes that cannot be
  written inside a literal are named.
\<close>

definition CR :: char where "CR = CHR 0x0D"
definition LF :: char where "LF = CHR 0x0A"
definition CtrlZ :: char where "CtrlZ = CHR 0x1A"

text \<open>\<open>strings.Contains(s, sub)\<close>: \<open>sub\<close> starts at some position of \<open>s\<close>.\<close>

fun Contains :: "string \<Rightarrow> string \<Rightarrow> bool" where
  "Contains [] sub = (sub = [])"
| "Contains (c # s) sub = (prefix sub (c # s) \<or> Contains s sub)"

text \<open>\<open>\d\<close> of Go's regexp package: the ten ASCII digits.\<close>

definition isDigit :: "char \<Rightarrow> bool" where
  "isDigit c = (c \<in> set ''0123456789'')"

text \<open>
  \<open>FindStringSubmatch\<close> returns the leftmost match: the pattern is tried at every
  position from the left, and the first position where it matches wins. The argument
  \<open>m\<close> matches one pattern anchored at the start of its input and returns the text
  of the capture group.
\<close>

fun leftmost :: "(string \<Rightarrow> string option) \<Rightarrow> string \<Rightarrow> string option" where
  "leftmost m [] = m []"
| "leftmost m (c # s) = (case m (c # s) of Some g \<Rightarrow> Some g | None \<Rightarrow> leftmost m s)"

definition strip_prefix :: "string \<Rightarrow> string \<Rightarrow> string option" where
  "strip_prefix p s = (if prefix p s then Some (drop (length p) s) else None)"

text \<open>\<open>\+CMGS: (\d+)\<close> at the start of the input; the group is greedy.\<close>

definition match_CMGS :: "string \<Rightarrow> string option" where
  "match_CMGS s =
     (case strip_prefix ''+CMGS: '' s of
        None \<Rightarrow> None
      | Some rest \<Rightarrow>
          (let ds = takeWhile isDigit rest in if ds = [] then None else Some ds))"

text \<open>\<open>\+CREG: \d,(\d)\<close> at the start of the input.\<close>

definition match_CREG :: "string \<Rightarrow> string option" where
  "match_CREG s =
     (case strip_prefix ''+CREG: '' s of
        Some (d1 # c # d2 # _) \<Rightarrow>
          (if isDigit d1 \<and> c = CHR '','' \<and> isDigit d2 then Some [d2] else None)
      | _ \<Rightarrow> None)"

text \<open>
  \<open>\+CSQ: (\d+),\<close> at the start of the input. The greedy group takes the whole run
  of digits; giving digits back never helps, since the byte after a shorter run is a digit
  and not the comma.
\<close>

definition match_CSQ :: "string \<Rightarrow> string option" where
  "match_CSQ s =
     (case strip_prefix ''+CSQ: '' s of
        None \<Rightarrow> None
      | Some rest \<Rightarrow>
          (let ds = takeWhile isDigit rest in
           if ds \<noteq> [] \<and> prefix '','' (dropWhile isDigit rest) then Some ds else None))"

definition find_CMGS :: "string \<Rightarrow> string option" where
  "find_CMGS = leftmost match_CMGS"

definition find_CREG :: "string \<Rightarrow> string option" where
  "find_CREG = leftmost match_CREG"

definition find_CSQ :: "string \<Rightarrow> string option" where
  "find_CSQ = leftmost match_CSQ"

subsection \<open>Decimal numbers\<close>

definition digit_val :: "char \<Rightarrow> int" where
  "digit_val c = int (of_char c) - 48"

definition dec_val :: "string \<Rightarrow> int" where
  "dec_val ds = foldl (\<lambda>acc c. 10 * acc + digit_val c) 0 ds"

text \<open>
  \<open>strconv.Atoi\<close> for a 64-bit \<open>int\<close>: an optional sign, then at least one digit and
  nothing but digits; a value outside the range of \<open>int\<close> is an error.
\<close>

definition Atoi :: "string \<Rightarrow> int option" where
  "Atoi s =
     (let (neg, ds) =
        (case s of
           c # r \<Rightarrow> if c = CHR ''-'' then (True, r) else if c = CHR ''+'' then (False, r)
                    else (False, s)
         | [] \<Rightarrow> (False, s))
      in if ds = [] \<or> \<not> list_all isDigit ds then None
         else (let v = (if neg then - dec_val ds else dec_val ds) in
               if - (2 ^ 63) \<le> v \<and> v \<le> 2 ^ 63 - 1 then Some v else None))"

text \<open>\<open>fmt.Sprintf("%d", n)\<close>.\<close>

fun nat_dec :: "nat \<Rightarrow> string" where
  "nat_dec n =
     (if n < 10 then [char_of (48 + n)] else nat_dec (n div 10) @ [char_of (48 + n mod 10)])"

definition Itoa :: "int \<Rightarrow> string" where
  "Itoa i = (if i < 0 then CHR ''-'' # nat_dec (nat (- i)) else nat_dec (nat i))"

declare nat_dec.simps [simp del]

subsection \<open>\<open>strings.Split\<close>, \<open>strings.TrimSpace\<close>, \<open>%q\<close>\<close>

text \<open>\<open>strings.Split(s, "\n")\<close>: the pieces between the separators, at least one piece.\<close>

fun split_lines :: "string \<Rightarrow> string list" where
  "split_lines [] = [[]]"
| "split_lines (c # s) =
     (if c = LF then [] # split_lines s
      else (case split_lines s of l # ls \<Rightarrow> (c # l) # ls | [] \<Rightarrow> [[c]]))"

text \<open>
  The white space of \<open>unicode.IsSpace\<close>, as UTF-8 byte sequences: the six ASCII
  characters, U+0085, U+00A0, U+1680, U+2000 to U+200A, U+2028, U+2029, U+202F, U+205F
  and U+3000.
\<close>

definition white_space :: "string list" where
  "white_space =
     map (\<lambda>c. [c]) [CHR 0x09, CHR 0x0A, CHR 0x0B, CHR 0x0C, CHR 0x0D, CHR 0x20]
     @ [[CHR 0xC2, CHR 0x85], [CHR 0xC2, CHR 0xA0], [CHR 0xE1, CHR 0x9A, CHR 0x80]]
     @ map (\<lambda>n. [CHR 0xE2, CHR 0x80, char_of (0x80 + n)]) [0 ..< 11 :: nat]
     @ [[CHR 0xE2, CHR 0x80, CHR 0xA8], [CHR 0xE2, CHR 0x80, CHR 0xA9],
        [CHR 0xE2, CHR 0x80, CHR 0xAF], [CHR 0xE2, CHR 0x81, CHR 0x9F],
        [CHR 0xE3, CHR 0x80, CHR 0x80]]"

fun trim_left :: "nat \<Rightarrow> string \<Rightarrow> string" where
  "trim_left 0 s = s"
| "trim_left (Suc n) s =
     (case List.find (\<lambda>sp. prefix sp s) white_space of
        None \<Rightarrow> s
      | Some sp \<Rightarrow> trim_left n (drop (length sp) s))"

text \<open>
  Each round removes at least one byte, so \<open>length s\<close> rounds remove every leading
  white space; the trailing white space goes the same way, from the end.
\<close>

fun trim_right :: "nat \<Rightarrow> string \<Rightarrow> string" where
  "trim_right 0 s = s"
| "trim_right (Suc n) s =
     (case List.find (\<lambda>sp. suffix sp s) white_space of
        None \<Rightarrow> s
      | Some sp \<Rightarrow> trim_right n (take (length s - length sp) s))"

definition TrimSpace :: "string \<Rightarrow> string" where
  "TrimSpace s = (let l = trim_left (length s) s in trim_right (length l) l)"

definition DQ :: char where "DQ = CHR 0x22"
definition BSL :: char where "BSL = CHR 0x5C"

text \<open>
  \<open>%q\<close> on the commands of this program, which are printable ASCII: the text between
  double quotes, a double quote and a backslash escaped with a backslash.
\<close>

definition Quote :: "string \<Rightarrow> string" where
  "Quote s = [DQ] @ concat (map (\<lambda>c. if c = DQ \<or> c = BSL then [BSL, c] else [c]) s) @ [DQ]"

section \<open>The serial port\<close>

text \<open>
  The port is the program's only transport. Every operation on it is recorded in a trace,
  and what the hardware answers is a script the operations consume:
  \<^item> \<open>open_err\<close>, \<open>timeout_err\<close>: the errors of \<open>serial.Open\<close> and
    \<open>SetReadTimeout\<close>, if any;
  \<^item> \<open>write_errs\<close>: the error of each successive \<open>Write\<close> (none once the list is
    used up);
  \<^item> \<open>polls\<close>: for each successive call of \<open>readUntil\<close>, the byte chunks that the
    calls of \<open>Read\<close> starting before its cutoff return, in order; an empty chunk is a
    read that timed out or failed (once the list is used up, a call of \<open>readUntil\<close>
    finds its cutoff passed before the first read).
  The mutex of \<open>GSMModem\<close> is held for a whole call, so a call is one transition.
\<close>

datatype io_event =
    EvOpen string int
  | EvSetReadTimeout nat
  | EvWrite string
  | EvRead
  | EvClose

record serial =
  open_err :: "string option"
  timeout_err :: "string option"
  write_errs :: "string option list"
  polls :: "string list list"
  trace :: "io_event list"

definition emit :: "io_event list \<Rightarrow> serial \<Rightarrow> serial" where
  "emit evs w = w\<lparr>trace := trace w @ evs\<rparr>"

record GSMModem =
  portName :: string
  baudRate :: int

text \<open>\<open>New(portName, baudRate)\<close>.\<close>

definition New_GSMModem :: "string \<Rightarrow> int \<Rightarrow> GSMModem" where
  "New_GSMModem p b = \<lparr>portName = p, baudRate = b\<rparr>"

text \<open>\<open>openPort\<close>: the error, or the port open with a read timeout of 200 ms.\<close>

definition openPort :: "GSMModem \<Rightarrow> serial \<Rightarrow> string option \<times> serial" where
  "openPort m w =
     (let w1 = emit [EvOpen (portName m) (baudRate m)] w in
      case open_err w of
        Some e \<Rightarrow> (Some (''failed to open serial port '' @ portName m @ '': '' @ e), w1)
      | None \<Rightarrow>
          (case timeout_err w of
             Some e \<Rightarrow>
               (Some (''failed to set read timeout: '' @ e),
                emit [EvSetReadTimeout 200, EvClose] w1)
           | None \<Rightarrow> (None, emit [EvSetReadTimeout 200] w1)))"

definition port_Write :: "serial \<Rightarrow> string \<Rightarrow> string option \<times> serial" where
  "port_Write w bytes =
     (case write_errs w of
        [] \<Rightarrow> (None, emit [EvWrite bytes] w)
      | e # es \<Rightarrow> (e, emit [EvWrite bytes] (w\<lparr>write_errs := es\<rparr>)))"

definition port_Close :: "serial \<Rightarrow> serial" where
  "port_Close w = emit [EvClose] w"

text \<open>
  The loop of \<open>readUntil\<close> over the reads made before the cutoff: a read with data
  appends it and tests the markers; the count is the number of reads made.
\<close>

fun readUntil_loop :: "string list \<Rightarrow> string \<Rightarrow> string list \<Rightarrow> nat \<Rightarrow> string \<times> nat" where
  "readUntil_loop markers response [] k = (response, k)"
| "readUntil_loop markers response (c # cs) k =
     (if c \<noteq> [] then
        (let resp = response @ c in
         if list_ex (Contains resp) markers then (resp, Suc k)
         else readUntil_loop markers resp cs (Suc k))
      else readUntil_loop markers response cs (Suc k))"

text \<open>\<open>readUntil(port, markers, deadline)\<close>, the deadline in milliseconds.\<close>

definition readUntil :: "serial \<Rightarrow> string list \<Rightarrow> nat \<Rightarrow> string \<times> serial" where
  "readUntil w markers deadline =
     (case polls w of
        [] \<Rightarrow> ([], w)
      | cs # rest \<Rightarrow>
          (let (resp, k) = readUntil_loop markers [] cs 0 in
           (resp, emit (replicate k EvRead) (w\<lparr>polls := rest\<rparr>))))"

text \<open>\<open>sendAT\<close>: the command and a carriage return, 100 ms of sleep, then the answer.\<close>

definition sendAT :: "serial \<Rightarrow> string \<Rightarrow> (string + string) \<times> serial" where
  "sendAT w cmd =
     (case port_Write w (cmd @ [CR]) of
        (Some e, w1) \<Rightarrow> (Inl (''failed to write command '' @ Quote cmd @ '': '' @ e), w1)
      | (None, w1) \<Rightarrow>
          (let (resp, w2) = readUntil w1 [''OK'', ''ERROR''] 3000 in (Inr resp, w2)))"

text \<open>The test \<open>err == nil && strings.Contains(resp, "OK")\<close> on what \<open>sendAT\<close> returns.\<close>

definition answered_OK :: "string + string \<Rightarrow> bool" where
  "answered_OK r = (case r of Inl _ \<Rightarrow> False | Inr resp \<Rightarrow> Contains resp ''OK'')"

section \<open>The modem: \<open>Status\<close>, \<open>SendResult\<close> and the hardware variant\<close>

record Status =
  Connected :: bool
  NetworkRegistered :: bool
  SignalStrength :: int
  SignalStrengthDesc :: string
  Manufacturer :: string
  Model :: string

record SendResult =
  Success :: bool
  MessageReference :: string
  Error :: string

text \<open>The zero values \<open>&Status{}\<close> and \<open>&SendResult{}\<close>.\<close>

definition Status_zero :: Status where
  "Status_zero =
     \<lparr>Connected = False, NetworkRegistered = False, SignalStrength = 0,
      SignalStrengthDesc = [], Manufacturer = [], Model = []\<rparr>"

definition SendResult_zero :: SendResult where
  "SendResult_zero = \<lparr>Success = False, MessageReference = [], Error = []\<rparr>"

text \<open>\<open>parseSimpleResponse\<close>: the first line that, trimmed, is not empty, not \<open>OK\<close>
  and not an echoed command.\<close>

fun first_payload :: "string list \<Rightarrow> string" where
  "first_payload [] = []"
| "first_payload (l # ls) =
     (let line = TrimSpace l in
      if line = [] \<or> line = ''OK'' \<or> prefix ''AT'' line then first_payload ls else line)"

definition parseSimpleResponse :: "string \<Rightarrow> string" where
  "parseSimpleResponse resp = first_payload (split_lines resp)"

text \<open>The \<open>switch\<close> of \<open>GetStatus\<close> on the parsed signal value.\<close>

definition signal_desc :: "int \<Rightarrow> string" where
  "signal_desc val =
     (if val = 99 then ''unknown''
      else if val < 10 then ''weak''
      else if val < 20 then ''fair''
      else if val < 30 then ''good''
      else ''excellent'')"

text \<open>
  The signal step of \<open>GetStatus\<close> on the answer to \<open>AT+CSQ\<close>: the status is changed
  only when the pattern matches and its group is an \<open>int\<close>.
\<close>

definition set_signal :: "string \<Rightarrow> Status \<Rightarrow> Status" where
  "set_signal resp status =
     (case find_CSQ resp of
        None \<Rightarrow> status
      | Some g \<Rightarrow>
          (case Atoi g of
             None \<Rightarrow> status
           | Some val \<Rightarrow>
               status\<lparr>SignalStrength := val, SignalStrengthDesc := signal_desc val\<rparr>))"

text \<open>The registration step of \<open>GetStatus\<close>: 1 is home, 5 is roaming.\<close>

definition set_registered :: "string \<Rightarrow> Status \<Rightarrow> Status" where
  "set_registered resp status =
     (case find_CREG resp of
        None \<Rightarrow> status
      | Some regStatus \<Rightarrow>
          (if regStatus = ''1'' \<or> regStatus = ''5''
           then status\<lparr>NetworkRegistered := True\<rparr> else status))"

text \<open>
  \<open>GetStatus\<close> once the port is open, up to the registration step: either the modem
  does not answer the first command and the call returns there (\<open>Inl\<close>), or the status
  so far (\<open>Inr\<close>).
\<close>

definition GetStatus_first :: "serial \<Rightarrow> ((Status \<times> string option) + Status) \<times> serial" where
  "GetStatus_first w =
     (let status = Status_zero;
          (r1, w1) = sendAT w ''AT'' in
      if \<not> answered_OK r1 then (Inl (status, Some ''modem not responding''), w1)
      else
        (let status = status\<lparr>Connected := True\<rparr>;
             (r2, w2) = sendAT w1 ''AT+CGMI'';
             status = (case r2 of
                         Inl _ \<Rightarrow> status
                       | Inr resp \<Rightarrow>
                           if Contains resp ''OK''
                           then status\<lparr>Manufacturer := parseSimpleResponse resp\<rparr>
                           else status);
             (r3, w3) = sendAT w2 ''AT+CGMM'';
             status = (case r3 of
                         Inl _ \<Rightarrow> status
                       | Inr resp \<Rightarrow>
                           if Contains resp ''OK''
                           then status\<lparr>Model := parseSimpleResponse resp\<rparr>
                           else status);
             (r4, w4) = sendAT w3 ''AT+CREG?'';
             status = (case r4 of Inl _ \<Rightarrow> status | Inr resp \<Rightarrow> set_registered resp status)
         in (Inr status, w4)))"

text \<open>\<open>GetStatus\<close> once the port is open, up to the deferred \<open>Close\<close>: the steps
  above, then the signal query and the signal step on its answer.\<close>

definition GetStatus_port :: "serial \<Rightarrow> (Status \<times> string option) \<times> serial" where
  "GetStatus_port w =
     (case GetStatus_first w of
        (Inl r, w1) \<Rightarrow> (r, w1)
      | (Inr status, w4) \<Rightarrow>
          (let (r5, w5) = sendAT w4 ''AT+CSQ'';
               status = (case r5 of Inl _ \<Rightarrow> status | Inr resp \<Rightarrow> set_signal resp status)
           in ((status, None), w5)))"

definition GetStatus :: "GSMModem \<Rightarrow> serial \<Rightarrow> (Status \<times> string option) \<times> serial" where
  "GetStatus m w =
     (case openPort m w of
        (Some e, w1) \<Rightarrow> ((Status_zero, Some (''modem not accessible: '' @ e)), w1)
      | (None, w1) \<Rightarrow> (let (r, w2) = GetStatus_port w1 in (r, port_Close w2)))"

subsection \<open>\<open>SendSMS\<close>\<close>

text \<open>The bytes of the dash in the warning of the uncertain result (U+2014).\<close>

definition uncertain_warning :: string where
  "uncertain_warning =
     ''uncertain result '' @ [CHR 0xE2, CHR 0x80, CHR 0x94] @ '' check phone for delivery''"

text \<open>
  The end of \<open>SendSMS\<close>: what is returned for the final response, the text read after
  the message body and Ctrl+Z were written.
\<close>

definition classify_final :: "SendResult \<Rightarrow> string \<Rightarrow> SendResult \<times> string option" where
  "classify_final result finalResp =
     (case find_CMGS finalResp of
        Some ref \<Rightarrow> (result\<lparr>Success := True, MessageReference := ref\<rparr>, None)
      | None \<Rightarrow>
          (if Contains finalResp ''OK'' then (result\<lparr>Success := True\<rparr>, None)
           else if Contains finalResp ''ERROR'' then
             (result\<lparr>Error := ''modem returned an error''\<rparr>,
              Some (''modem returned an error: '' @ finalResp))
           else (result\<lparr>Success := True, Error := uncertain_warning\<rparr>, None)))"

text \<open>
  Steps 6 and 7 of \<open>SendSMS\<close>: the send command, the prompt, the body and Ctrl+Z,
  the final response. Either a step fails and the call returns there (\<open>Inl\<close>), or
  the final response is read (\<open>Inr\<close>).
\<close>

definition SendSMS_body ::
  "SendResult \<Rightarrow> serial \<Rightarrow> string \<Rightarrow> string
     \<Rightarrow> ((SendResult \<times> string option) + string) \<times> serial" where
  "SendSMS_body result w phoneNumber message =
     (case port_Write w (''AT+CMGS='' @ [DQ] @ phoneNumber @ [DQ] @ [CR]) of
        (Some e, w6) \<Rightarrow>
          (Inl (result\<lparr>Error := ''failed to initiate SMS: '' @ e\<rparr>,
                Some (''failed to initiate SMS: '' @ e)), w6)
      | (None, w6) \<Rightarrow>
          (let (prompt, w7) = readUntil w6 [''>'', ''ERROR''] 3000 in
           if Contains prompt ''ERROR'' then
             (Inl (result\<lparr>Error := ''modem rejected the send command''\<rparr>,
                   Some (''modem rejected AT+CMGS: '' @ prompt)), w7)
           else
             (case port_Write w7 (message @ [CtrlZ]) of
                (Some e, w8) \<Rightarrow>
                  (Inl (result\<lparr>Error := ''failed to write message body: '' @ e\<rparr>,
                        Some (''failed to write message body: '' @ e)), w8)
              | (None, w8) \<Rightarrow>
                  (let (finalResp, w9) = readUntil w8 [''+CMGS:'', ''OK'', ''ERROR''] 30000
                   in (Inr finalResp, w9)))))"

text \<open>
  Step 5 of \<open>SendSMS\<close> on what \<open>sendAT\<close> returned for \<open>AT+CREG?\<close>: the status
  digit that stops the call, if any. A write error and an answer without the pattern let
  the call go on.
\<close>

definition not_registered :: "string + string \<Rightarrow> string option" where
  "not_registered r =
     (case r of
        Inl _ \<Rightarrow> None
      | Inr resp \<Rightarrow>
          (case find_CREG resp of
             None \<Rightarrow> None
           | Some regStatus \<Rightarrow>
               (if regStatus \<noteq> ''1'' \<and> regStatus \<noteq> ''5'' then Some regStatus else None)))"

text \<open>Steps 1 to 7 of \<open>SendSMS\<close> on the open port.\<close>

definition SendSMS_steps ::
  "serial \<Rightarrow> string \<Rightarrow> string \<Rightarrow> ((SendResult \<times> string option) + string) \<times> serial" where
  "SendSMS_steps w phoneNumber message =
     (let result = SendResult_zero;
          (r1, w1) = sendAT w ''AT'' in
      if \<not> answered_OK r1 then
        (Inl (result\<lparr>Error := ''modem not responding''\<rparr>, Some ''modem not responding''), w1)
      else
        (let (r2, w2) = sendAT w1 ''AT+CMGF=1'' in
         if \<not> answered_OK r2 then
           (Inl (result\<lparr>Error := ''failed to set SMS text mode''\<rparr>,
                 Some ''failed to set SMS text mode''), w2)
         else
           (let (r3, w3) = sendAT w2 (''AT+CSCS='' @ [DQ] @ ''GSM'' @ [DQ]);
                (r4, w4) = sendAT w3 ''AT+CSMP=17,167,0,0'';
                (r5, w5) = sendAT w4 ''AT+CREG?'' in
            case not_registered r5 of
              Some regStatus \<Rightarrow>
                (Inl (result\<lparr>Error := ''not registered on network''\<rparr>,
                      Some (''not registered on network (status: '' @ regStatus @ '')'')), w5)
            | None \<Rightarrow> SendSMS_body result w5 phoneNumber message)))"

text \<open>
  \<open>SendSMS\<close> of the hardware variant: the result, the error (\<open>None\<close> is \<open>nil\<close>) and
  the port afterwards.
\<close>

definition SendSMS ::
  "GSMModem \<Rightarrow> serial \<Rightarrow> string \<Rightarrow> string \<Rightarrow> (SendResult \<times> string option) \<times> serial" where
  "SendSMS m w phoneNumber message =
     (let result = SendResult_zero in
      if phoneNumber = [] then ((result, Some ''phone number is required''), w)
      else if message = [] then ((result, Some ''message is required''), w)
      else
        (case openPort m w of
           (Some e, w1) \<Rightarrow>
             ((result\<lparr>Error := ''modem not accessible: '' @ e\<rparr>,
               Some (''modem not accessible: '' @ e)), w1)
         | (None, w1) \<Rightarrow>
             (case SendSMS_steps w1 phoneNumber message of
                (Inl r, w2) \<Rightarrow> (r, port_Close w2)
              | (Inr finalResp, w2) \<Rightarrow> (classify_final result finalResp, port_Close w2))))"

section \<open>The simulator\<close>

record SimulatorModem =
  msgRef :: int

definition NewSimulator :: SimulatorModem where
  "NewSimulator = \<lparr>msgRef = 0\<rparr>"

definition Sim_GetStatus :: "SimulatorModem \<Rightarrow> Status \<times> string option" where
  "Sim_GetStatus m =
     (\<lparr>Connected = True, NetworkRegistered = True, SignalStrength = 31,
       SignalStrengthDesc = ''excellent'', Manufacturer = ''Simulator'',
       Model = ''Virtual Modem''\<rparr>, None)"

text \<open>\<open>m.msgRef++\<close> on a 64-bit \<open>int\<close>.\<close>

definition incr64 :: "int \<Rightarrow> int" where
  "incr64 i = (i + 1 + 2 ^ 63) mod 2 ^ 64 - 2 ^ 63"

text \<open>
  \<open>SendSMS\<close> of the simulator. The sleep and the two log lines change nothing the
  program reads; the simulator has no port.
\<close>

definition Sim_SendSMS ::
  "SimulatorModem \<Rightarrow> string \<Rightarrow> string \<Rightarrow> (SendResult \<times> string option) \<times> SimulatorModem" where
  "Sim_SendSMS m phoneNumber message =
     (if phoneNumber = [] then ((SendResult_zero, Some ''phone number is required''), m)
      else if message = [] then ((SendResult_zero, Some ''message is required''), m)
      else
        (let m1 = m\<lparr>msgRef := incr64 (msgRef m)\<rparr>;
             ref = msgRef m1 in
         ((\<lparr>Success = True, MessageReference = Itoa ref, Error = []\<rparr>, None), m1)))"

section \<open>The interface \<open>Modem\<close>\<close>

datatype Modem = Hardware GSMModem | Simulator SimulatorModem

text \<open>A call through the interface: the result, the modem afterwards, the port afterwards.\<close>

definition Modem_SendSMS ::
  "Modem \<Rightarrow> serial \<Rightarrow> string \<Rightarrow> string \<Rightarrow> (SendResult \<times> string option) \<times> Modem \<times> serial" where
  "Modem_SendSMS md w phoneNumber message =
     (case md of
        Hardware m \<Rightarrow>
          (let (r, w1) = SendSMS m w phoneNumber message in (r, Hardware m, w1))
      | Simulator m \<Rightarrow>
          (let (r, m1) = Sim_SendSMS m phoneNumber message in (r, Simulator m1, w)))"

section \<open>The job queue\<close>

datatype JobStatus = StatusQueued | StatusSending | StatusSent | StatusFailed

text \<open>The retention of completed jobs, in nanoseconds: \<open>5 * time.Minute\<close>.\<close>

definition jobRetention :: int where
  "jobRetention = 5 * 60 * 1000000000"

text \<open>
  A \<open>Job\<close>. \<open>Result\<close> is a pointer to a \<open>SendResult\<close>, \<open>None\<close> for \<open>nil\<close>; the
  two times are instants in nanoseconds.
\<close>

record Job =
  ID :: string
  Phone :: string
  Message :: string
  Status :: JobStatus
  Result :: "nat option"
  Error :: string
  CreatedAt :: int
  UpdatedAt :: int

text \<open>
  Where the worker goroutine stands: about to receive from the channel, blocked in the
  receive on the empty channel, holding a received job before the first critical section
  of \<open>process\<close>, or between the two critical sections of \<open>process\<close>.
\<close>

datatype worker_pc = Idle | Parked | Taken nat | InFlight nat

text \<open>
  Where a call of \<open>Enqueue\<close> stands once its job is in the store: before the
  \<open>select\<close>, or after a successful send, before the log line and the \<open>return\<close>.
\<close>

datatype enqueue_pc = Inserted | Sent

text \<open>
  The queue with the memory its pointers reach. A \<open>*Job\<close> is an index of \<open>job_heap\<close>,
  a \<open>*SendResult\<close> an index of \<open>result_heap\<close>; an allocation appends. \<open>jobs\<close> is
  the content of the channel, oldest first, \<open>capacity\<close> its buffer size; \<open>store\<close> is
  the map from job IDs to jobs, as an association list. \<open>enqueues\<close> maps the job of
  every call of \<open>Enqueue\<close> under way to where the call stands.
\<close>

record Queue =
  jobs :: "nat list"
  capacity :: nat
  store :: "(string \<times> nat) list"
  modem :: Modem
  job_heap :: "Job list"
  result_heap :: "SendResult list"
  worker :: worker_pc
  enqueues :: "(nat \<times> enqueue_pc) list"

text \<open>
  \<open>New\<close>: \<open>make\<close> panics on a negative buffer size (\<open>None\<close>); the worker starts
  at its receive.
\<close>

definition New :: "Modem \<Rightarrow> int \<Rightarrow> Queue option" where
  "New m bufferSize =
     (if bufferSize < 0 then None
      else Some \<lparr>jobs = [], capacity = nat bufferSize, store = [], modem = m,
                  job_heap = [], result_heap = [], worker = Idle, enqueues = []\<rparr>)"

text \<open>\<open>generateID\<close> on the eight bytes that \<open>rand.Read\<close> filled in: lower-case hex.\<close>

definition hex_digit :: "nat \<Rightarrow> char" where
  "hex_digit n = ''0123456789abcdef'' ! (n mod 16)"

definition generateID :: "nat list \<Rightarrow> string" where
  "generateID b = concat (map (\<lambda>x. [hex_digit (x mod 256 div 16), hex_digit (x mod 16)]) b)"

text \<open>
  \<open>Enqueue\<close> up to the end of its first critical section, with the random bytes of the
  ID and the two readings of the clock: the job is created and put in the store. The lock
  is released here, so anything may run before the call goes on.
\<close>

definition Enqueue_insert ::
  "Queue \<Rightarrow> nat list \<Rightarrow> string \<Rightarrow> string \<Rightarrow> int \<Rightarrow> int \<Rightarrow> nat \<times> Queue" where
  "Enqueue_insert q rnd phone message now1 now2 =
     (let job = \<lparr>ID = generateID rnd, Phone = phone, Message = message,
                 Status = StatusQueued, Result = None, Error = [],
                 CreatedAt = now1, UpdatedAt = now2\<rparr>;
          p = length (job_heap q)
      in (p, q\<lparr>job_heap := job_heap q @ [job],
                store := AList.update (ID job) p (store q),
                enqueues := AList.update p Inserted (enqueues q)\<rparr>))"

text \<open>
  The \<open>select\<close> of \<open>Enqueue\<close> for the job \<open>job\<close>. The non-blocking send succeeds
  when the receiver is blocked in its receive (the job is handed over) or the buffer has
  room; the call then stands before its \<open>return\<close>. Otherwise the \<open>default\<close> branch
  runs: the entry of the job's ID is deleted from the store and the call returns \<open>nil\<close>
  and \<open>false\<close>. The result tells whether the job was sent.
\<close>

definition Enqueue_select :: "Queue \<Rightarrow> nat \<Rightarrow> bool \<times> Queue" where
  "Enqueue_select q job =
     (if worker q = Parked then
        (True, q\<lparr>worker := Taken job, enqueues := AList.update job Sent (enqueues q)\<rparr>)
      else if length (jobs q) < capacity q then
        (True, q\<lparr>jobs := jobs q @ [job], enqueues := AList.update job Sent (enqueues q)\<rparr>)
      else
        (False, q\<lparr>store := AList.delete (ID (job_heap q ! job)) (store q),
                   enqueues := AList.delete job (enqueues q)\<rparr>))"

text \<open>
  The end of an accepted call: the log line and \<open>return job, true\<close>. What is returned is
  the pointer to the job in memory, as the worker may have changed it since the send.
\<close>

definition Enqueue_return :: "Queue \<Rightarrow> nat \<Rightarrow> (nat option \<times> bool) \<times> Queue" where
  "Enqueue_return q job = ((Some job, True), q\<lparr>enqueues := AList.delete job (enqueues q)\<rparr>)"

text \<open>
  A call of \<open>Enqueue\<close> that nothing interrupts. The result is the pointer and \<open>true\<close>,
  or \<open>nil\<close> and \<open>false\<close>.
\<close>

definition Enqueue ::
  "Queue \<Rightarrow> nat list \<Rightarrow> string \<Rightarrow> string \<Rightarrow> int \<Rightarrow> int \<Rightarrow> (nat option \<times> bool) \<times> Queue" where
  "Enqueue q rnd phone message now1 now2 =
     (let (job, q1) = Enqueue_insert q rnd phone message now1 now2;
          (ok, q2) = Enqueue_select q1 job
      in if ok then Enqueue_return q2 job else ((None, False), q2))"

definition terminal :: "JobStatus \<Rightarrow> bool" where
  "terminal s = (s = StatusSent \<or> s = StatusFailed)"

text \<open>
  \<open>Get\<close>: \<open>nil\<close> for an unknown ID; otherwise a new \<open>Job\<close> with the fields of the
  stored one and, when there is a result, a new \<open>SendResult\<close> with its fields. A
  completed job leaves the store.
\<close>

definition Get :: "Queue \<Rightarrow> string \<Rightarrow> nat option \<times> Queue" where
  "Get q jid =
     (case map_of (store q) jid of
        None \<Rightarrow> (None, q)
      | Some job \<Rightarrow>
          (let cp = job_heap q ! job;
               (cp, results) =
                 (case Result (job_heap q ! job) of
                    None \<Rightarrow> (cp, result_heap q)
                  | Some r \<Rightarrow>
                      (cp\<lparr>Result := Some (length (result_heap q))\<rparr>,
                       result_heap q @ [result_heap q ! r]));
               q1 = q\<lparr>job_heap := job_heap q @ [cp], result_heap := results\<rparr>;
               q2 = (if terminal (Status (job_heap q ! job))
                     then q1\<lparr>store := AList.delete jid (store q1)\<rparr> else q1)
           in (Some (length (job_heap q)), q2)))"

definition Pending :: "Queue \<Rightarrow> nat" where
  "Pending q = length (jobs q)"

text \<open>
  The receive of \<open>for job := range q.jobs\<close>: the oldest job of the buffer, or the
  worker blocks on the empty channel.
\<close>

definition worker_receive :: "Queue \<Rightarrow> Queue" where
  "worker_receive q =
     (case worker q of
        Idle \<Rightarrow>
          (case jobs q of
             [] \<Rightarrow> q\<lparr>worker := Parked\<rparr>
           | job # rest \<Rightarrow> q\<lparr>jobs := rest, worker := Taken job\<rparr>)
      | _ \<Rightarrow> q)"

text \<open>The first critical section of \<open>process\<close>.\<close>

definition process_sending :: "Queue \<Rightarrow> nat \<Rightarrow> int \<Rightarrow> Queue" where
  "process_sending q job now =
     q\<lparr>job_heap :=
         (job_heap q)[job := (job_heap q ! job)\<lparr>Status := StatusSending, UpdatedAt := now\<rparr>]\<rparr>"

text \<open>
  The second critical section of \<open>process\<close>, on what \<open>SendSMS\<close> returned. Both
  variants of the modem return a pointer to a \<open>SendResult\<close> they allocated in the call,
  never \<open>nil\<close>: the result is a new object.
\<close>

definition process_done :: "Queue \<Rightarrow> nat \<Rightarrow> SendResult \<times> string option \<Rightarrow> int \<Rightarrow> Queue" where
  "process_done q job r now =
     (let result = length (result_heap q);
          j = (job_heap q ! job)\<lparr>Result := Some result, UpdatedAt := now\<rparr>;
          j = (case snd r of
                 Some e \<Rightarrow> j\<lparr>Status := StatusFailed, Error := e\<rparr>
               | None \<Rightarrow> j\<lparr>Status := StatusSent\<rparr>)
      in q\<lparr>job_heap := (job_heap q)[job := j], result_heap := result_heap q @ [fst r]\<rparr>)"

text \<open>
  The call of the modem between the two critical sections, on the port as it behaves during
  the call.
\<close>

definition process_call :: "Queue \<Rightarrow> nat \<Rightarrow> serial \<Rightarrow> (SendResult \<times> string option) \<times> Queue" where
  "process_call q job w =
     (let (r, md, w1) = Modem_SendSMS (modem q) w (Phone (job_heap q ! job))
                          (Message (job_heap q ! job))
      in (r, q\<lparr>modem := md\<rparr>))"

text \<open>\<open>process\<close> as a whole, when nothing else runs in between.\<close>

definition process :: "Queue \<Rightarrow> nat \<Rightarrow> serial \<Rightarrow> int \<Rightarrow> int \<Rightarrow> Queue" where
  "process q job w now1 now2 =
     (let q1 = process_sending q job now1;
          (r, q2) = process_call q1 job w
      in process_done q2 job r now2)"

text \<open>
  One pass of the loop of \<open>cleanup\<close> over the keys of the store: an entry still in the
  store is deleted when its job is completed and was last updated before the cutoff.
\<close>

fun sweep ::
  "Job list \<Rightarrow> int \<Rightarrow> string list \<Rightarrow> (string \<times> nat) list \<Rightarrow> nat \<Rightarrow> (string \<times> nat) list \<times> nat" where
  "sweep heap cutoff [] st removed = (st, removed)"
| "sweep heap cutoff (jid # ids) st removed =
     (case map_of st jid of
        None \<Rightarrow> sweep heap cutoff ids st removed
      | Some job \<Rightarrow>
          (if terminal (Status (heap ! job)) \<and> UpdatedAt (heap ! job) < cutoff
           then sweep heap cutoff ids (AList.delete jid st) (Suc removed)
           else sweep heap cutoff ids st removed))"

definition cleanup_pass :: "Queue \<Rightarrow> int \<Rightarrow> Queue" where
  "cleanup_pass q now =
     (let cutoff = now - jobRetention
      in q\<lparr>store := fst (sweep (job_heap q) cutoff (map fst (store q)) (store q) 0)\<rparr>)"

subsection \<open>Runs of the queue\<close>

text \<open>
  What can happen to a queue, one step at a time: a call of \<open>Enqueue\<close> that nothing
  interrupts, or the three steps of a call one by one (the insertion, the \<open>select\<close> for
  an inserted job, the return for a sent job); a call of \<open>Get\<close>; the worker's receive;
  the two halves of \<open>process\<close> for the job the worker holds (the second with the modem's
  call before it); a pass of \<open>cleanup\<close>. A step that is not due leaves the queue as it
  is.
\<close>

datatype action =
    DoEnqueue "nat list" string string int int
  | DoInsert "nat list" string string int int
  | DoSelect nat
  | DoReturn nat
  | DoGet string
  | DoReceive
  | DoSending int
  | DoDone serial int
  | DoCleanup int

fun exec :: "Queue \<Rightarrow> action \<Rightarrow> Queue" where
  "exec q (DoEnqueue rnd phone message now1 now2) = snd (Enqueue q rnd phone message now1 now2)"
| "exec q (DoInsert rnd phone message now1 now2) =
     snd (Enqueue_insert q rnd phone message now1 now2)"
| "exec q (DoSelect job) =
     (if map_of (enqueues q) job = Some Inserted then snd (Enqueue_select q job) else q)"
| "exec q (DoReturn job) =
     (if map_of (enqueues q) job = Some Sent then snd (Enqueue_return q job) else q)"
| "exec q (DoGet jid) = snd (Get q jid)"
| "exec q DoReceive = worker_receive q"
| "exec q (DoSending now) =
     (case worker q of
        Taken job \<Rightarrow> (process_sending q job now)\<lparr>worker := InFlight job\<rparr>
      | _ \<Rightarrow> q)"
| "exec q (DoDone w now) =
     (case worker q of
        InFlight job \<Rightarrow>
          (let (r, q1) = process_call q job w in (process_done q1 job r now)\<lparr>worker := Idle\<rparr>)
      | _ \<Rightarrow> q)"
| "exec q (DoCleanup now) = cleanup_pass q now"

definition run :: "Queue \<Rightarrow> action list \<Rightarrow> Queue" where
  "run q acts = foldl exec q acts"


subsection \<open>What holds of every queue a run reaches\<close>

text \<open>Every job in memory has a result exactly when it is completed, and the result exists.\<close>

definition heap_ok :: "Queue \<Rightarrow> bool" where
  "heap_ok q =
     (\<forall>p < length (job_heap q).
        (Result (job_heap q ! p) \<noteq> None) = terminal (Status (job_heap q ! p)) \<and>
        (\<forall>r. Result (job_heap q ! p) = Some r \<longrightarrow> r < length (result_heap q)))"

text \<open>The channel holds each job once, and every job in it is queued.\<close>

definition chan_ok :: "Queue \<Rightarrow> bool" where
  "chan_ok q =
     (distinct (jobs q) \<and>
      (\<forall>p \<in> set (jobs q). p < length (job_heap q) \<and> Status (job_heap q ! p) = StatusQueued))"

definition store_ok :: "Queue \<Rightarrow> bool" where
  "store_ok q = (\<forall>e \<in> set (store q). snd e < length (job_heap q))"

text \<open>
  The job the worker holds is out of the channel; it is queued before the first critical
  section of \<open>process\<close> and sending after it. A blocked worker means an empty channel.
\<close>

definition worker_ok :: "Queue \<Rightarrow> bool" where
  "worker_ok q =
     (case worker q of
        Idle \<Rightarrow> True
      | Parked \<Rightarrow> jobs q = []
      | Taken p \<Rightarrow>
          p < length (job_heap q) \<and> p \<notin> set (jobs q) \<and>
          Status (job_heap q ! p) = StatusQueued
      | InFlight p \<Rightarrow>
          p < length (job_heap q) \<and> p \<notin> set (jobs q) \<and>
          Status (job_heap q ! p) = StatusSending)"

text \<open>
  The job of a call of \<open>Enqueue\<close> that stands before its \<open>select\<close> is queued, out of
  the channel and not with the worker.
\<close>

definition enqueues_ok :: "Queue \<Rightarrow> bool" where
  "enqueues_ok q =
     (\<forall>job. map_of (enqueues q) job = Some Inserted \<longrightarrow>
        job < length (job_heap q) \<and> job \<notin> set (jobs q) \<and>
        worker q \<noteq> Taken job \<and> worker q \<noteq> InFlight job \<and>
        Status (job_heap q ! job) = StatusQueued)"

definition queue_inv :: "Queue \<Rightarrow> bool" where
  "queue_inv q = (heap_ok q \<and> chan_ok q \<and> store_ok q \<and> worker_ok q \<and> enqueues_ok q)"


section \<open>Properties of the final response, and sample runs\<close>

text \<open>
  The text holds \<open>+CMGS:\<close>, a space and at least one digit: the pattern of the numeric
  reference occurs in it.
\<close>

definition has_reference :: "string \<Rightarrow> bool" where
  "has_reference r = (\<exists>pre d rest. isDigit d \<and> r = pre @ ''+CMGS: '' @ d # rest)"

definition modem0 :: GSMModem where
  "modem0 = New_GSMModem ''COM3'' 115200"

text \<open>
  A port that opens, echoes the first command, answers \<open>OK\<close> to the set-up commands,
  reports the home network, prompts, and after one empty read answers the body with
  \<open>final\<close>.
\<close>

definition script_sent :: "string \<Rightarrow> serial" where
  "script_sent final =
     \<lparr>open_err = None, timeout_err = None, write_errs = [],
      polls = [[''AT'' @ [CR], [CR, LF] @ ''OK'' @ [CR, LF]], [''OK''], [''OK''], [''OK''],
               [''+CREG: 0,1'' @ [CR, LF] @ ''OK''], [''> ''], [[], final]],
      trace = []\<rparr>"

text \<open>
  A port that opens and answers \<open>OK\<close> to the first four commands of \<open>GetStatus\<close> and
  \<open>csq\<close> to the signal query.
\<close>

definition script_status :: "string \<Rightarrow> serial" where
  "script_status csq =
     \<lparr>open_err = None, timeout_err = None, write_errs = [],
      polls = [[''OK''], [''huawei'' @ [CR, LF] @ ''OK''], [''E3372'' @ [CR, LF] @ ''OK''],
               [''+CREG: 0,1'' @ [CR, LF] @ ''OK''], [csq]],
      trace = []\<rparr>"

text \<open>The five descriptions of the signal strength.\<close>

definition signal_descs :: "string set" where
  "signal_descs = {''weak'', ''fair'', ''good'', ''excellent'', ''unknown''}"

text \<open>
  The two signal fields of a \<open>Status\<close>: untouched, or a value in the range of
  \<open>int\<close> with its description.
\<close>

definition signal_fields_ok :: "Status \<Rightarrow> bool" where
  "signal_fields_ok st =
     ((SignalStrength st = 0 \<and> SignalStrengthDesc st = [])
      \<or> (0 \<le> SignalStrength st \<and> SignalStrength st \<le> 2 ^ 63 - 1 \<and>
          SignalStrengthDesc st = signal_desc (SignalStrength st)))"

text \<open>
  The pattern of the numeric reference matches \<open>r\<close> at position \<open>n\<close> with the digits
  \<open>ref\<close>: there stand \<open>+CMGS:\<close>, a space, the digits \<open>ref\<close>, at least one, and
  no further digit.
\<close>

definition reference_at :: "string \<Rightarrow> nat \<Rightarrow> string \<Rightarrow> bool" where
  "reference_at r n ref =
     (n \<le> length r \<and>
      (\<exists>rest. drop n r = ''+CMGS: '' @ ref @ rest \<and> ref \<noteq> [] \<and> list_all isDigit ref \<and>
         (case rest of [] \<Rightarrow> True | c # _ \<Rightarrow> \<not> isDigit c)))"

text \<open>\<open>ref\<close> is the reference of the first place of \<open>r\<close> where the pattern matches.\<close>

definition first_reference :: "string \<Rightarrow> string \<Rightarrow> bool" where
  "first_reference r ref =
     (\<exists>n. reference_at r n ref \<and> (\<forall>k < n. \<forall>ref'. \<not> reference_at r k ref'))"

text \<open>
  The pattern of the signal value matches \<open>r\<close> at position \<open>n\<close> with the digits
  \<open>g\<close>: there stand \<open>+CSQ:\<close>, a space, the digits \<open>g\<close>, at least one, and a comma.
\<close>

definition signal_at :: "string \<Rightarrow> nat \<Rightarrow> string \<Rightarrow> bool" where
  "signal_at r n g =
     (n \<le> length r \<and>
      (\<exists>rest. drop n r = ''+CSQ: '' @ g @ '','' @ rest \<and> g \<noteq> [] \<and> list_all isDigit g))"

text \<open>\<open>g\<close> is the digits of the first place of \<open>r\<close> where the pattern matches.\<close>

definition first_signal :: "string \<Rightarrow> string \<Rightarrow> bool" where
  "first_signal r g =
     (\<exists>n. signal_at r n g \<and> (\<forall>k < n. \<forall>g'. \<not> signal_at r k g'))"

text \<open>An answer to the signal query that starts with the echo of the command.\<close>

definition csq_echoed :: string where
  "csq_echoed =
     ''AT+CSQ'' @ [CR, CR, LF] @ ''+CSQ: 25,99'' @ [CR, LF, CR, LF] @ ''OK'' @ [CR, LF]"


section \<open>Properties of the queue, and sample queues\<close>

text \<open>
  One change of a job's status, as the order queued, sending, then sent or failed allows
  it: no change, queued to sending, or sending to one of the two final states.
\<close>

definition status_step :: "JobStatus \<Rightarrow> JobStatus \<Rightarrow> bool" where
  "status_step s s' =
     (s' = s \<or> (s = StatusQueued \<and> s' = StatusSending)
      \<or> (s = StatusSending \<and> (s' = StatusSent \<or> s' = StatusFailed)))"

text \<open>The same over any number of changes: a status is never left for an earlier one.\<close>

definition status_later :: "JobStatus \<Rightarrow> JobStatus \<Rightarrow> bool" where
  "status_later s s' =
     (s' = s \<or> s = StatusQueued \<or> (s = StatusSending \<and> (s' = StatusSent \<or> s' = StatusFailed)))"


text \<open>
  What a caller reads in a job: every field, with the result the job points to in place
  of the pointer.
\<close>

definition job_view ::
  "Queue \<Rightarrow> nat \<Rightarrow> (string \<times> string \<times> string \<times> JobStatus \<times> string \<times> int \<times> int) \<times> SendResult option" where
  "job_view q job =
     (let j = job_heap q ! job in
      ((ID j, Phone j, Message j, Status j, Job.Error j, CreatedAt j, UpdatedAt j),
       map_option (\<lambda>r. result_heap q ! r) (Result j)))"

text \<open>
  A caller overwrites the job it holds with \<open>j\<close> and, if that job had a result, the
  result with \<open>v\<close>.
\<close>

definition overwrite :: "Queue \<Rightarrow> nat \<Rightarrow> Job \<Rightarrow> SendResult \<Rightarrow> Queue" where
  "overwrite q job j v =
     q\<lparr>job_heap := (job_heap q)[job := j],
       result_heap :=
         (case Result (job_heap q ! job) of
            None \<Rightarrow> result_heap q
          | Some r \<Rightarrow> (result_heap q)[r := v])\<rparr>"

text \<open>New queues on the simulator, as \<open>New\<close> returns them for the sizes 1 and 0.\<close>

definition queue_one :: Queue where
  "queue_one =
     \<lparr>jobs = [], capacity = 1, store = [], modem = Simulator NewSimulator,
      job_heap = [], result_heap = [], worker = Idle, enqueues = []\<rparr>"

definition queue_none :: Queue where
  "queue_none =
     \<lparr>jobs = [], capacity = 0, store = [], modem = Simulator NewSimulator,
      job_heap = [], result_heap = [], worker = Idle, enqueues = []\<rparr>"

definition rnd_a :: "nat list" where
  "rnd_a = [1, 2, 3, 4, 5, 6, 7, 8]"

definition rnd_b :: "nat list" where
  "rnd_b = [161, 178, 195, 212, 229, 246, 120, 144]"

text \<open>One job accepted and still in the channel.\<close>

definition acts_waiting :: "action list" where
  "acts_waiting = [DoEnqueue rnd_a ''+420123456789'' ''hi'' 10 11]"

text \<open>The job received by the worker.\<close>

definition acts_taken :: "action list" where
  "acts_taken = acts_waiting @ [DoReceive]"

text \<open>The job sent and completed.\<close>

definition acts_sent :: "action list" where
  "acts_sent = acts_taken @ [DoSending 12, DoDone (script_sent ''OK'') 20]"

text \<open>The first job completed at time 20, then a second job accepted at time 21.\<close>

definition acts_two :: "action list" where
  "acts_two = acts_sent @ [DoEnqueue rnd_b ''+420987654321'' ''again'' 21 22]"




section \<open>Proofs\<close>


lemma Contains_sublist: "Contains s sub = sublist sub s"
  by (induction s) (auto simp: sublist_Cons_right)

lemma leftmost_None: "leftmost m s = None \<longleftrightarrow> (\<forall>t. suffix t s \<longrightarrow> m t = None)"
  by (induction s) (auto simp: suffix_Cons split: option.splits)

lemma leftmost_Some: "leftmost m s = Some g \<Longrightarrow> \<exists>t. suffix t s \<and> m t = Some g"
  by (induction s) (auto simp: suffix_Cons split: option.splits)

lemma takeWhile_digits: "list_all isDigit (takeWhile isDigit r)"
  by (induction r) auto

lemma match_CMGS_Some:
  "match_CMGS s = Some ref \<Longrightarrow>
     ref \<noteq> [] \<and> list_all isDigit ref \<and> prefix (''+CMGS: '' @ ref) s"
proof -
  assume a: "match_CMGS s = Some ref"
  then obtain r where r: "s = ''+CMGS: '' @ r" "ref = takeWhile isDigit r" "ref \<noteq> []"
    unfolding match_CMGS_def strip_prefix_def Let_def prefix_def
    by (auto split: if_splits)
  have "prefix ref r" unfolding r(2) by (metis prefixI takeWhile_dropWhile_id)
  then show ?thesis using r takeWhile_digits by simp
qed

lemma match_CMGS_None:
  assumes "match_CMGS s = None"
  shows "\<not> (\<exists>d rest. isDigit d \<and> s = ''+CMGS: '' @ d # rest)"
proof
  assume "\<exists>d rest. isDigit d \<and> s = ''+CMGS: '' @ d # rest"
  then obtain d rest where "isDigit d" "s = ''+CMGS: '' @ d # rest" by blast
  then have "match_CMGS s \<noteq> None"
    by (simp add: match_CMGS_def strip_prefix_def)
  with assms show False by simp
qed


lemma find_CMGS_None: "find_CMGS r = None \<longleftrightarrow> \<not> has_reference r"
proof
  assume n: "find_CMGS r = None"
  show "\<not> has_reference r"
  proof
    assume "has_reference r"
    then obtain pre d rest where d: "isDigit d" "r = pre @ ''+CMGS: '' @ d # rest"
      unfolding has_reference_def by blast
    then have "suffix (''+CMGS: '' @ d # rest) r" by (simp add: suffix_def)
    with n have "match_CMGS (''+CMGS: '' @ d # rest) = None"
      unfolding find_CMGS_def leftmost_None by blast
    with d(1) show False using match_CMGS_None by blast
  qed
next
  assume h: "\<not> has_reference r"
  show "find_CMGS r = None"
  proof (rule ccontr)
    assume "find_CMGS r \<noteq> None"
    then obtain ref where "leftmost match_CMGS r = Some ref" by (auto simp: find_CMGS_def)
    from leftmost_Some [OF this] obtain t where t: "suffix t r" "match_CMGS t = Some ref" by blast
    from match_CMGS_Some [OF t(2)] obtain d ds rest where
      "ref = d # ds" "isDigit d" "t = ''+CMGS: '' @ (d # ds) @ rest"
      by (cases ref) (auto simp: prefix_def)
    moreover from t(1) obtain pre where "r = pre @ t" by (auto simp: suffix_def)
    ultimately have "has_reference r" unfolding has_reference_def by auto
    with h show False by simp
  qed
qed

lemma find_CMGS_Some:
  assumes "find_CMGS r = Some ref"
  shows "ref \<noteq> [] \<and> list_all isDigit ref \<and> sublist (''+CMGS: '' @ ref) r"
proof -
  from assms have "leftmost match_CMGS r = Some ref" by (simp add: find_CMGS_def)
  from leftmost_Some [OF this] obtain t where t: "suffix t r" "match_CMGS t = Some ref" by blast
  from match_CMGS_Some [OF t(2)] have m: "ref \<noteq> []" "list_all isDigit ref"
    "prefix (''+CMGS: '' @ ref) t" by simp_all
  from m(3) t(1) have "sublist (''+CMGS: '' @ ref) r"
    unfolding sublist_altdef' by blast
  with m show ?thesis by simp
qed

lemma classify_final_cases:
  "(has_reference finalResp \<longrightarrow>
      (\<exists>ref. ref \<noteq> [] \<and> list_all isDigit ref \<and> sublist (''+CMGS: '' @ ref) finalResp \<and>
         classify_final SendResult_zero finalResp =
           (\<lparr>Success = True, MessageReference = ref, Error = []\<rparr>, None)))
   \<and> (\<not> has_reference finalResp \<and> sublist ''OK'' finalResp \<longrightarrow>
        classify_final SendResult_zero finalResp =
          (\<lparr>Success = True, MessageReference = [], Error = []\<rparr>, None))
   \<and> (\<not> has_reference finalResp \<and> \<not> sublist ''OK'' finalResp \<and> sublist ''ERROR'' finalResp \<longrightarrow>
        classify_final SendResult_zero finalResp =
          (\<lparr>Success = False, MessageReference = [], Error = ''modem returned an error''\<rparr>,
           Some (''modem returned an error: '' @ finalResp)))
   \<and> (\<not> has_reference finalResp \<and> \<not> sublist ''OK'' finalResp \<and> \<not> sublist ''ERROR'' finalResp \<longrightarrow>
        classify_final SendResult_zero finalResp =
          (\<lparr>Success = True, MessageReference = [], Error = uncertain_warning\<rparr>, None))"
proof (cases "find_CMGS finalResp")
  case None
  then have "\<not> has_reference finalResp" by (simp add: find_CMGS_None)
  with None show ?thesis
    by (simp add: classify_final_def SendResult_zero_def Contains_sublist)
next
  case (Some ref)
  then have h: "has_reference finalResp" using find_CMGS_None [of finalResp] by simp
  have "classify_final SendResult_zero finalResp =
      (\<lparr>Success = True, MessageReference = ref, Error = []\<rparr>, None)"
    using Some by (simp add: classify_final_def SendResult_zero_def)
  with find_CMGS_Some [OF Some] h show ?thesis by blast
qed

lemma classify_final_err:
  "(snd (classify_final SendResult_zero r) = None) = Success (fst (classify_final SendResult_zero r))"
  by (simp add: classify_final_def SendResult_zero_def split: option.splits)

lemma SendSMS_final:
  assumes "phoneNumber \<noteq> []" "message \<noteq> []" "fst (openPort m w) = None"
    "fst (SendSMS_steps (snd (openPort m w)) phoneNumber message) = Inr finalResp"
  shows "fst (SendSMS m w phoneNumber message) = classify_final SendResult_zero finalResp"
proof -
  obtain w1 where o: "openPort m w = (None, w1)" using assms(3) by (cases "openPort m w") auto
  obtain w2 where s: "SendSMS_steps w1 phoneNumber message = (Inr finalResp, w2)"
    using assms(4) o by (cases "SendSMS_steps w1 phoneNumber message") auto
  show ?thesis using assms(1,2) o s by (simp add: SendSMS_def)
qed

lemma SendResult_zero_fails: "\<not> Success SendResult_zero"
  by (simp add: SendResult_zero_def)

lemma SendSMS_body_Inl:
  "\<not> Success result \<Longrightarrow> fst (SendSMS_body result w p msg) = Inl (res, err)
     \<Longrightarrow> \<not> Success res \<and> err \<noteq> None"
  by (auto simp: SendSMS_body_def Let_def split: prod.splits option.splits if_splits)

lemma SendSMS_steps_Inl:
  "fst (SendSMS_steps w p msg) = Inl (res, err) \<Longrightarrow> \<not> Success res \<and> err \<noteq> None"
  unfolding SendSMS_steps_def Let_def
  by (auto simp: SendResult_zero_fails dest: SendSMS_body_Inl [OF SendResult_zero_fails]
        split: prod.splits option.splits if_splits)

lemma SendSMS_invalid:
  "p = [] \<or> msg = [] \<Longrightarrow>
     \<exists>e. SendSMS m w p msg = ((SendResult_zero, Some e), w)
        \<and> e \<in> {''phone number is required'', ''message is required''}"
  by (auto simp: SendSMS_def)

lemma SendSMS_err_iff:
  "(snd (fst (SendSMS m w p msg)) = None) = Success (fst (fst (SendSMS m w p msg)))"
proof -
  consider (bad) "p = [] \<or> msg = []"
    | (closed) e where "p \<noteq> []" "msg \<noteq> []" "fst (openPort m w) = Some e"
    | (opened) "p \<noteq> []" "msg \<noteq> []" "fst (openPort m w) = None"
    by (cases "fst (openPort m w)") auto
  then show ?thesis
  proof cases
    case bad
    from SendSMS_invalid [OF this, of m w] show ?thesis
      by (auto simp: SendResult_zero_def)
  next
    case closed
    obtain w1 where "openPort m w = (Some e, w1)"
      using closed(3) by (cases "openPort m w") auto
    with closed(1,2) show ?thesis by (simp add: SendSMS_def SendResult_zero_def)
  next
    case opened
    then obtain w1 where o: "openPort m w = (None, w1)" by (cases "openPort m w") auto
    show ?thesis
    proof (cases "fst (SendSMS_steps (snd (openPort m w)) p msg)")
      case (Inl r)
      obtain res err where r: "r = (res, err)" by (cases r)
      from SendSMS_steps_Inl [of "snd (openPort m w)" p msg res err] Inl r
      have "\<not> Success res \<and> err \<noteq> None" by simp
      moreover have "fst (SendSMS m w p msg) = (res, err)"
      proof -
        obtain w2 where s: "SendSMS_steps w1 p msg = (Inl (res, err), w2)"
          using Inl r o by (cases "SendSMS_steps w1 p msg") auto
        show ?thesis using opened(1,2) o s by (simp add: SendSMS_def)
      qed
      ultimately show ?thesis by simp
    next
      case (Inr finalResp)
      from SendSMS_final [OF opened Inr] show ?thesis by (simp add: classify_final_err)
    qed
  qed
qed

lemma Sim_SendSMS_err_iff:
  "(snd (fst (Sim_SendSMS m p msg)) = None) = Success (fst (fst (Sim_SendSMS m p msg)))"
  by (simp add: Sim_SendSMS_def SendResult_zero_def Let_def)


lemma leftmost_Some_iff:
  "leftmost m s = Some g \<longleftrightarrow>
     (\<exists>n \<le> length s. m (drop n s) = Some g \<and> (\<forall>k < n. m (drop k s) = None))"
proof (induction s)
  case Nil
  then show ?case by simp
next
  case (Cons c s)
  show ?case
  proof (cases "m (c # s)")
    case (Some g')
    show ?thesis
    proof
      assume "leftmost m (c # s) = Some g"
      with Some have "m (drop 0 (c # s)) = Some g" by simp
      then show "\<exists>n \<le> length (c # s). m (drop n (c # s)) = Some g \<and>
          (\<forall>k < n. m (drop k (c # s)) = None)"
        by (intro exI [of _ 0]) simp
    next
      assume "\<exists>n \<le> length (c # s). m (drop n (c # s)) = Some g \<and>
          (\<forall>k < n. m (drop k (c # s)) = None)"
      then obtain n where n: "m (drop n (c # s)) = Some g" "\<forall>k < n. m (drop k (c # s)) = None"
        by auto
      have "n = 0"
      proof (rule ccontr)
        assume "n \<noteq> 0"
        then have "0 < n" by simp
        with n(2) have "m (drop 0 (c # s)) = None" by (rule_tac allE [of _ 0]) auto
        with Some show False by simp
      qed
      with n(1) Some show "leftmost m (c # s) = Some g" by simp
    qed
  next
    case None
    then have l: "leftmost m (c # s) = leftmost m s" by simp
    show ?thesis
    proof
      assume "leftmost m (c # s) = Some g"
      with l Cons obtain n where n: "n \<le> length s" "m (drop n s) = Some g"
        "\<forall>k < n. m (drop k s) = None" by auto
      have "\<forall>k < Suc n. m (drop k (c # s)) = None"
      proof (intro allI impI)
        fix k assume "k < Suc n"
        then show "m (drop k (c # s)) = None" using None n(3) by (cases k) simp_all
      qed
      with n(1,2) show "\<exists>n \<le> length (c # s). m (drop n (c # s)) = Some g \<and>
          (\<forall>k < n. m (drop k (c # s)) = None)"
        by (intro exI [of _ "Suc n"]) simp
    next
      assume "\<exists>n \<le> length (c # s). m (drop n (c # s)) = Some g \<and>
          (\<forall>k < n. m (drop k (c # s)) = None)"
      then obtain n where n: "n \<le> length (c # s)" "m (drop n (c # s)) = Some g"
        "\<forall>k < n. m (drop k (c # s)) = None" by auto
      from n(2) None obtain n' where n': "n = Suc n'" by (cases n) simp_all
      have "\<forall>k < n'. m (drop k s) = None"
      proof (intro allI impI)
        fix k assume "k < n'"
        then have "Suc k < n" using n' by simp
        with n(3) have "m (drop (Suc k) (c # s)) = None" by (rule_tac allE [of _ "Suc k"]) auto
        then show "m (drop k s) = None" by simp
      qed
      with n(1,2) n' have "\<exists>n \<le> length s. m (drop n s) = Some g \<and> (\<forall>k < n. m (drop k s) = None)"
        by (intro exI [of _ n']) simp
      with l Cons show "leftmost m (c # s) = Some g" by simp
    qed
  qed
qed

lemma takeWhile_run:
  "list_all P ds \<Longrightarrow> (case rest of [] \<Rightarrow> True | c # _ \<Rightarrow> \<not> P c) \<Longrightarrow>
     takeWhile P (ds @ rest) = ds \<and> dropWhile P (ds @ rest) = rest"
  by (induction ds) (auto split: list.splits)

lemma match_CMGS_iff:
  "match_CMGS s = Some ref \<longleftrightarrow>
     (\<exists>rest. s = ''+CMGS: '' @ ref @ rest \<and> ref \<noteq> [] \<and> list_all isDigit ref \<and>
        (case rest of [] \<Rightarrow> True | c # _ \<Rightarrow> \<not> isDigit c))"
proof
  assume a: "match_CMGS s = Some ref"
  then obtain r where r: "s = ''+CMGS: '' @ r" "ref = takeWhile isDigit r" "ref \<noteq> []"
    unfolding match_CMGS_def strip_prefix_def Let_def prefix_def
    by (auto split: if_splits)
  have 1: "r = ref @ dropWhile isDigit r" unfolding r(2) by simp
  have 2: "list_all isDigit ref" unfolding r(2) by (rule takeWhile_digits)
  have 3: "case dropWhile isDigit r of [] \<Rightarrow> True | c # _ \<Rightarrow> \<not> isDigit c"
  proof (cases "dropWhile isDigit r")
    case Nil
    show ?thesis unfolding Nil by simp
  next
    case (Cons c cs)
    have "dropWhile isDigit r \<noteq> []" unfolding Cons by simp
    from hd_dropWhile [OF this] have "\<not> isDigit c" unfolding Cons by simp
    then show ?thesis unfolding Cons by simp
  qed
  have 4: "s = ''+CMGS: '' @ ref @ dropWhile isDigit r" using r(1) 1 by simp
  show "\<exists>rest. s = ''+CMGS: '' @ ref @ rest \<and> ref \<noteq> [] \<and> list_all isDigit ref \<and>
        (case rest of [] \<Rightarrow> True | c # _ \<Rightarrow> \<not> isDigit c)"
    using 4 r(3) 2 3 by blast
next
  assume "\<exists>rest. s = ''+CMGS: '' @ ref @ rest \<and> ref \<noteq> [] \<and> list_all isDigit ref \<and>
        (case rest of [] \<Rightarrow> True | c # _ \<Rightarrow> \<not> isDigit c)"
  then obtain rest where r: "s = ''+CMGS: '' @ ref @ rest" "ref \<noteq> []" "list_all isDigit ref"
    "case rest of [] \<Rightarrow> True | c # _ \<Rightarrow> \<not> isDigit c" by auto
  from takeWhile_run [OF r(3,4)] have "takeWhile isDigit (ref @ rest) = ref" by simp
  with r(1,2) show "match_CMGS s = Some ref"
    by (simp add: match_CMGS_def strip_prefix_def)
qed

lemma reference_at_match:
  "reference_at r n ref \<longleftrightarrow> n \<le> length r \<and> match_CMGS (drop n r) = Some ref"
  by (simp add: reference_at_def match_CMGS_iff)

lemma no_reference_at_match:
  "n \<le> length r \<Longrightarrow> (\<forall>ref'. \<not> reference_at r n ref') \<longleftrightarrow> match_CMGS (drop n r) = None"
  by (auto simp: reference_at_match)

lemma find_CMGS_first: "find_CMGS r = Some ref \<longleftrightarrow> first_reference r ref"
proof
  assume "find_CMGS r = Some ref"
  then obtain n where n: "n \<le> length r" "match_CMGS (drop n r) = Some ref"
    "\<forall>k < n. match_CMGS (drop k r) = None"
    unfolding find_CMGS_def leftmost_Some_iff by auto
  have "\<forall>k < n. \<forall>ref'. \<not> reference_at r k ref'"
    using n(3) by (simp add: reference_at_match)
  with n(1,2) show "first_reference r ref"
    unfolding first_reference_def by (intro exI [of _ n]) (simp add: reference_at_match)
next
  assume "first_reference r ref"
  then obtain n where n: "reference_at r n ref" "\<forall>k < n. \<forall>ref'. \<not> reference_at r k ref'"
    unfolding first_reference_def by auto
  from n(1) have 1: "n \<le> length r" "match_CMGS (drop n r) = Some ref"
    by (simp_all add: reference_at_match)
  have "\<forall>k < n. match_CMGS (drop k r) = None"
  proof (intro allI impI)
    fix k assume k: "k < n"
    then have "k \<le> length r" using 1(1) by simp
    from no_reference_at_match [OF this] n(2) k show "match_CMGS (drop k r) = None" by simp
  qed
  with 1 show "find_CMGS r = Some ref"
    unfolding find_CMGS_def leftmost_Some_iff by (intro exI [of _ n]) simp
qed

lemma has_reference_first: "has_reference r \<longleftrightarrow> (\<exists>ref. first_reference r ref)"
  using find_CMGS_None [of r] find_CMGS_first [of r] by (cases "find_CMGS r") auto

lemma first_reference_classified:
  "first_reference finalResp ref \<Longrightarrow>
     classify_final SendResult_zero finalResp =
       (\<lparr>Success = True, MessageReference = ref, SendResult.Error = []\<rparr>, None)"
  by (simp add: find_CMGS_first [symmetric] classify_final_def SendResult_zero_def)


subsection \<open>The classification of the final response\<close>

text \<open>
  C1. When \<open>SendSMS\<close> has written the message body and read the final response, its
  result depends on that text alone, in this order. If the pattern of the numeric
  reference occurs in it, the call succeeds with the reference of the first place where
  the pattern matches, the whole run of digits there; otherwise \<open>OK\<close> gives success
  without a reference; otherwise \<open>ERROR\<close> gives a failure with a non-empty error string
  (and an error); otherwise the call succeeds with the non-empty warning in the error
  string.
\<close>

theorem final_response_classification:
  assumes "phoneNumber \<noteq> []" "message \<noteq> []" "fst (openPort m w) = None"
    "fst (SendSMS_steps (snd (openPort m w)) phoneNumber message) = Inr finalResp"
  shows
    "(first_reference finalResp ref \<longrightarrow>
        fst (SendSMS m w phoneNumber message) =
          (\<lparr>Success = True, MessageReference = ref, SendResult.Error = []\<rparr>, None))
     \<and> (has_reference finalResp \<longrightarrow>
        (\<exists>ref. first_reference finalResp ref \<and>
           ref \<noteq> [] \<and> list_all isDigit ref \<and> sublist (''+CMGS: '' @ ref) finalResp \<and>
           fst (SendSMS m w phoneNumber message) =
             (\<lparr>Success = True, MessageReference = ref, SendResult.Error = []\<rparr>, None)))
     \<and> (\<not> has_reference finalResp \<and> sublist ''OK'' finalResp \<longrightarrow>
          fst (SendSMS m w phoneNumber message) =
            (\<lparr>Success = True, MessageReference = [], SendResult.Error = []\<rparr>, None))
     \<and> (\<not> has_reference finalResp \<and> \<not> sublist ''OK'' finalResp \<and> sublist ''ERROR'' finalResp \<longrightarrow>
          fst (SendSMS m w phoneNumber message) =
            (\<lparr>Success = False, MessageReference = [],
              SendResult.Error = ''modem returned an error''\<rparr>,
             Some (''modem returned an error: '' @ finalResp)))
     \<and> (\<not> has_reference finalResp \<and> \<not> sublist ''OK'' finalResp \<and> \<not> sublist ''ERROR'' finalResp \<longrightarrow>
          fst (SendSMS m w phoneNumber message) =
            (\<lparr>Success = True, MessageReference = [], SendResult.Error = uncertain_warning\<rparr>,
             None)
          \<and> uncertain_warning \<noteq> [])"
proof -
  have e: "fst (SendSMS m w phoneNumber message) = classify_final SendResult_zero finalResp"
    using assms by (rule SendSMS_final)
  have 1: "first_reference finalResp ref \<longrightarrow>
        classify_final SendResult_zero finalResp =
          (\<lparr>Success = True, MessageReference = ref, SendResult.Error = []\<rparr>, None)"
    by (simp add: first_reference_classified)
  have 2: "has_reference finalResp \<longrightarrow>
        (\<exists>ref. first_reference finalResp ref \<and>
           ref \<noteq> [] \<and> list_all isDigit ref \<and> sublist (''+CMGS: '' @ ref) finalResp \<and>
           classify_final SendResult_zero finalResp =
             (\<lparr>Success = True, MessageReference = ref, SendResult.Error = []\<rparr>, None))"
  proof
    assume "has_reference finalResp"
    then obtain ref where r: "first_reference finalResp ref"
      by (auto simp: has_reference_first)
    then have "find_CMGS finalResp = Some ref" by (simp add: find_CMGS_first)
    from find_CMGS_Some [OF this] r first_reference_classified [OF r]
    show "\<exists>ref. first_reference finalResp ref \<and>
           ref \<noteq> [] \<and> list_all isDigit ref \<and> sublist (''+CMGS: '' @ ref) finalResp \<and>
           classify_final SendResult_zero finalResp =
             (\<lparr>Success = True, MessageReference = ref, SendResult.Error = []\<rparr>, None)"
      by blast
  qed
  from 1 2 classify_final_cases [of finalResp] show ?thesis
    unfolding e by (simp add: uncertain_warning_def)
qed

lemma script_sent_opens: "fst (openPort modem0 (script_sent final)) = None"
  by (simp add: openPort_def script_sent_def)

lemma script_sent_final_42:
  "fst (SendSMS_steps (snd (openPort modem0 (script_sent (''+CMGS: 42'' @ [CR, LF] @ ''OK''))))
     ''+420123456789'' ''hi'') = Inr (''+CMGS: 42'' @ [CR, LF] @ ''OK'')"
  by code_simp

lemma first_reference_42: "first_reference (''+CMGS: 42'' @ [CR, LF] @ ''OK'') ''42''"
proof -
  have "find_CMGS (''+CMGS: 42'' @ [CR, LF] @ ''OK'') = Some ''42''" by code_simp
  then show ?thesis by (simp only: find_CMGS_first)
qed

theorem final_response_classification_witness:
  "first_reference (''+CMGS: 42'' @ [CR, LF] @ ''OK'') ''42'' \<and>
   fst (SendSMS modem0 (script_sent (''+CMGS: 42'' @ [CR, LF] @ ''OK'')) ''+420123456789'' ''hi'')
     = (\<lparr>Success = True, MessageReference = ''42'', SendResult.Error = []\<rparr>, None)"
proof -
  have p: "''+420123456789'' \<noteq> []" "''hi'' \<noteq> []" by simp_all
  from final_response_classification [OF p script_sent_opens script_sent_final_42, of "''42''"]
    first_reference_42
  show ?thesis by blast
qed

subsection \<open>Validation comes before the transport\<close>

text \<open>
  C9. With an empty phone number or an empty message, \<open>SendSMS\<close> of either variant
  returns a validation error and the port is as it was: never opened, nothing written,
  nothing read.
\<close>
theorem validation_before_io:
  assumes "phoneNumber = [] \<or> message = []"
  shows "\<exists>e. Modem_SendSMS md w phoneNumber message = ((SendResult_zero, Some e), md, w)
           \<and> e \<in> {''phone number is required'', ''message is required''}"
proof (cases md)
  case (Hardware m)
  from SendSMS_invalid [OF assms, of m w] show ?thesis
    using Hardware by (auto simp: Modem_SendSMS_def)
next
  case (Simulator m)
  with assms show ?thesis by (auto simp: Modem_SendSMS_def Sim_SendSMS_def)
qed

theorem validation_before_io_witness:
  "(\<exists>e. Modem_SendSMS (Hardware modem0) (script_sent ''OK'') [] ''x''
           = ((SendResult_zero, Some e), Hardware modem0, script_sent ''OK''))
   \<and> (\<exists>e. Modem_SendSMS (Simulator NewSimulator) (script_sent ''OK'') ''x'' []
           = ((SendResult_zero, Some e), Simulator NewSimulator, script_sent ''OK''))
   \<and> trace (script_sent ''OK'') = []"
  using validation_before_io [of "[]" "''x''" "Hardware modem0" "script_sent ''OK''"]
    validation_before_io [of "''x''" "[]" "Simulator NewSimulator" "script_sent ''OK''"]
  by (auto simp: script_sent_def)

lemma Modem_SendSMS_Hardware:
  "fst (Modem_SendSMS (Hardware g) w p msg) = fst (SendSMS g w p msg)"
  by (simp add: Modem_SendSMS_def case_prod_beta)

lemma Modem_SendSMS_Simulator:
  "fst (Modem_SendSMS (Simulator s) w p msg) = fst (Sim_SendSMS s p msg)"
  by (simp add: Modem_SendSMS_def case_prod_beta)

subsection \<open>The error and the success flag\<close>

text \<open>
  C10. For either variant, \<open>SendSMS\<close> returns an error exactly when the result it
  returns has \<open>Success\<close> false. In particular a final response without any marker gives
  no error, \<open>Success\<close> true and a non-empty warning in the error string of the result.
\<close>
theorem error_iff_not_success:
  "(snd (fst (Modem_SendSMS md w phoneNumber message)) \<noteq> None)
     = (\<not> Success (fst (fst (Modem_SendSMS md w phoneNumber message))))
   \<and> (phoneNumber \<noteq> [] \<and> message \<noteq> [] \<and> fst (openPort m w) = None \<and>
       fst (SendSMS_steps (snd (openPort m w)) phoneNumber message) = Inr finalResp \<and>
       \<not> has_reference finalResp \<and> \<not> sublist ''OK'' finalResp \<and> \<not> sublist ''ERROR'' finalResp
      \<longrightarrow> snd (fst (Modem_SendSMS (Hardware m) w phoneNumber message)) = None
          \<and> Success (fst (fst (Modem_SendSMS (Hardware m) w phoneNumber message)))
          \<and> SendResult.Error (fst (fst (Modem_SendSMS (Hardware m) w phoneNumber message))) \<noteq> [])"
proof
  show "(snd (fst (Modem_SendSMS md w phoneNumber message)) \<noteq> None)
     = (\<not> Success (fst (fst (Modem_SendSMS md w phoneNumber message))))"
  proof (cases md)
    case (Hardware g)
    with SendSMS_err_iff [of g w phoneNumber message] show ?thesis
      by (simp add: Modem_SendSMS_Hardware)
  next
    case (Simulator s)
    with Sim_SendSMS_err_iff [of s phoneNumber message] show ?thesis
      by (simp add: Modem_SendSMS_Simulator)
  qed
next
  show "phoneNumber \<noteq> [] \<and> message \<noteq> [] \<and> fst (openPort m w) = None \<and>
       fst (SendSMS_steps (snd (openPort m w)) phoneNumber message) = Inr finalResp \<and>
       \<not> has_reference finalResp \<and> \<not> sublist ''OK'' finalResp \<and> \<not> sublist ''ERROR'' finalResp
      \<longrightarrow> snd (fst (Modem_SendSMS (Hardware m) w phoneNumber message)) = None
          \<and> Success (fst (fst (Modem_SendSMS (Hardware m) w phoneNumber message)))
          \<and> SendResult.Error (fst (fst (Modem_SendSMS (Hardware m) w phoneNumber message))) \<noteq> []"
  proof
    assume a: "phoneNumber \<noteq> [] \<and> message \<noteq> [] \<and> fst (openPort m w) = None \<and>
       fst (SendSMS_steps (snd (openPort m w)) phoneNumber message) = Inr finalResp \<and>
       \<not> has_reference finalResp \<and> \<not> sublist ''OK'' finalResp \<and> \<not> sublist ''ERROR'' finalResp"
    then have "fst (SendSMS m w phoneNumber message) = classify_final SendResult_zero finalResp"
      using SendSMS_final by blast
    moreover have "classify_final SendResult_zero finalResp =
          (\<lparr>Success = True, MessageReference = [], SendResult.Error = uncertain_warning\<rparr>, None)"
      using a classify_final_cases [of finalResp] by blast
    ultimately show "snd (fst (Modem_SendSMS (Hardware m) w phoneNumber message)) = None
          \<and> Success (fst (fst (Modem_SendSMS (Hardware m) w phoneNumber message)))
          \<and> SendResult.Error (fst (fst (Modem_SendSMS (Hardware m) w phoneNumber message))) \<noteq> []"
      by (simp add: Modem_SendSMS_Hardware uncertain_warning_def)
  qed
qed

lemma script_sent_final_silent:
  "fst (SendSMS_steps (snd (openPort modem0 (script_sent []))) ''+420123456789'' ''hi'') = Inr []"
  by code_simp

lemma no_reference_Nil: "\<not> has_reference []"
  by (simp add: has_reference_def)

theorem error_iff_not_success_witness:
  "snd (fst (Modem_SendSMS (Hardware modem0) (script_sent []) ''+420123456789'' ''hi'')) = None
   \<and> Success (fst (fst (Modem_SendSMS (Hardware modem0) (script_sent []) ''+420123456789'' ''hi'')))
   \<and> SendResult.Error (fst (fst (Modem_SendSMS (Hardware modem0) (script_sent [])
        ''+420123456789'' ''hi''))) \<noteq> []"
  using error_iff_not_success [of "Hardware modem0" "script_sent []" "''+420123456789''" "''hi''"
      modem0 "[]"] script_sent_opens [of "[]"] script_sent_final_silent no_reference_Nil
  by simp


subsection \<open>The description of the signal strength\<close>

lemma digit_val_nonneg: "isDigit c \<Longrightarrow> 0 \<le> digit_val c"
  by (auto simp: isDigit_def digit_val_def)

lemma foldl_dec_nonneg:
  "list_all isDigit ds \<Longrightarrow> 0 \<le> a \<Longrightarrow> 0 \<le> foldl (\<lambda>acc c. 10 * acc + digit_val c) a ds"
proof (induction ds arbitrary: a)
  case Nil
  then show ?case by simp
next
  case (Cons c ds)
  then have "0 \<le> 10 * a + digit_val c" using digit_val_nonneg [of c] by simp
  with Cons show ?case by simp
qed

lemma match_CSQ_digits: "match_CSQ s = Some g \<Longrightarrow> g \<noteq> [] \<and> list_all isDigit g"
  using takeWhile_digits
  by (auto simp: match_CSQ_def strip_prefix_def Let_def split: if_splits)

lemma find_CSQ_digits: "find_CSQ r = Some g \<Longrightarrow> g \<noteq> [] \<and> list_all isDigit g"
  unfolding find_CSQ_def using leftmost_Some [of match_CSQ r g] match_CSQ_digits by blast

lemma Atoi_digits:
  assumes "g \<noteq> []" "list_all isDigit g" "Atoi g = Some v"
  shows "0 \<le> v \<and> v \<le> 2 ^ 63 - 1"
proof -
  obtain c r where g: "g = c # r" using assms(1) by (cases g) auto
  with assms(2) have "isDigit c" by simp
  then have "c \<noteq> CHR ''-''" "c \<noteq> CHR ''+''" by (auto simp: isDigit_def)
  with assms(2,3) g have "v = dec_val g" "v \<le> 2 ^ 63 - 1"
    by (auto simp: Atoi_def Let_def split: if_splits)
  moreover have "0 \<le> dec_val g" unfolding dec_val_def
    using foldl_dec_nonneg [OF assms(2), of 0] by simp
  ultimately show ?thesis by simp
qed

text \<open>The two signal fields after the signal step, from the two before it.\<close>

lemma set_signal_fields:
  "(SignalStrength (set_signal resp st) = SignalStrength st \<and>
    SignalStrengthDesc (set_signal resp st) = SignalStrengthDesc st)
   \<or> (0 \<le> SignalStrength (set_signal resp st) \<and>
       SignalStrength (set_signal resp st) \<le> 2 ^ 63 - 1 \<and>
       SignalStrengthDesc (set_signal resp st) = signal_desc (SignalStrength (set_signal resp st)))"
proof (cases "find_CSQ resp")
  case None
  then show ?thesis by (simp add: set_signal_def)
next
  case (Some g)
  show ?thesis
  proof (cases "Atoi g")
    case None
    with Some show ?thesis by (simp add: set_signal_def)
  next
    case (Some v)
    from find_CSQ_digits [OF \<open>find_CSQ resp = Some g\<close>] Atoi_digits [of g v] Some
    have "0 \<le> v \<and> v \<le> 2 ^ 63 - 1" by simp
    with Some \<open>find_CSQ resp = Some g\<close> show ?thesis by (simp add: set_signal_def)
  qed
qed

lemma set_registered_fields:
  "SignalStrength (set_registered resp st) = SignalStrength st \<and>
   SignalStrengthDesc (set_registered resp st) = SignalStrengthDesc st"
  by (simp add: set_registered_def split: option.splits)

lemma signal_fields_ok_set_signal:
  "signal_fields_ok st \<Longrightarrow> signal_fields_ok (set_signal resp st)"
  using set_signal_fields [of resp st] unfolding signal_fields_ok_def by auto

lemma signal_fields_ok_upd [simp]:
  "signal_fields_ok (st\<lparr>Connected := a\<rparr>) = signal_fields_ok st"
  "signal_fields_ok (st\<lparr>Manufacturer := b\<rparr>) = signal_fields_ok st"
  "signal_fields_ok (st\<lparr>Model := c\<rparr>) = signal_fields_ok st"
  "signal_fields_ok (set_registered resp st) = signal_fields_ok st"
  using set_registered_fields [of resp st] by (simp_all add: signal_fields_ok_def)

lemma signal_fields_ok_zero [simp]: "signal_fields_ok Status_zero"
  by (simp add: signal_fields_ok_def Status_zero_def)

lemma GetStatus_first_signal:
  "fst (GetStatus_first w) = Inr st \<Longrightarrow> SignalStrength st = 0 \<and> SignalStrengthDesc st = []"
  unfolding GetStatus_first_def Let_def
  using set_registered_fields
  by (auto simp: Status_zero_def split: prod.splits sum.splits if_splits)

lemma GetStatus_first_error:
  "fst (GetStatus_first w) = Inl r \<Longrightarrow> fst r = Status_zero"
  unfolding GetStatus_first_def Let_def
  by (auto split: prod.splits sum.splits if_splits)

lemma GetStatus_port_signal: "signal_fields_ok (fst (fst (GetStatus_port w)))"
proof (cases "GetStatus_first w")
  case (Pair r w1)
  show ?thesis
  proof (cases r)
    case (Inl e)
    with Pair GetStatus_first_error [of w e] show ?thesis
      by (simp add: GetStatus_port_def)
  next
    case (Inr st)
    with Pair GetStatus_first_signal [of w st] have "signal_fields_ok st"
      by (simp add: signal_fields_ok_def)
    with Pair Inr show ?thesis
      by (auto simp: GetStatus_port_def Let_def signal_fields_ok_set_signal
            split: prod.splits sum.splits)
  qed
qed

text \<open>When the call gets to the signal query, its answer alone decides the two fields.\<close>

lemma GetStatus_signal_step:
  assumes "fst (openPort m w) = None"
    "fst (GetStatus_first (snd (openPort m w))) = Inr st4"
    "fst (sendAT (snd (GetStatus_first (snd (openPort m w)))) ''AT+CSQ'') = Inr resp"
  shows "fst (GetStatus m w) = (set_signal resp st4, None)"
proof -
  obtain w1 where o: "openPort m w = (None, w1)" using assms(1) by (cases "openPort m w") auto
  obtain w4 where f: "GetStatus_first w1 = (Inr st4, w4)"
    using assms(2) o by (cases "GetStatus_first w1") auto
  obtain w5 where a: "sendAT w4 ''AT+CSQ'' = (Inr resp, w5)"
    using assms(3) o f by (cases "sendAT w4 ''AT+CSQ''") auto
  show ?thesis using o f a by (simp add: GetStatus_def GetStatus_port_def)
qed

lemma match_CSQ_iff:
  "match_CSQ s = Some g \<longleftrightarrow>
     (\<exists>rest. s = ''+CSQ: '' @ g @ '','' @ rest \<and> g \<noteq> [] \<and> list_all isDigit g)"
proof
  assume a: "match_CSQ s = Some g"
  then obtain r where r: "s = ''+CSQ: '' @ r" "g = takeWhile isDigit r" "g \<noteq> []"
    "prefix '','' (dropWhile isDigit r)"
    unfolding match_CSQ_def strip_prefix_def Let_def prefix_def
    by (auto split: if_splits)
  from r(4) obtain rest where d: "dropWhile isDigit r = '','' @ rest" by (auto simp: prefix_def)
  have "r = g @ dropWhile isDigit r" unfolding r(2) by simp
  with d have 1: "s = ''+CSQ: '' @ g @ '','' @ rest" using r(1) by simp
  have 2: "list_all isDigit g" unfolding r(2) by (rule takeWhile_digits)
  show "\<exists>rest. s = ''+CSQ: '' @ g @ '','' @ rest \<and> g \<noteq> [] \<and> list_all isDigit g"
    using 1 2 r(3) by blast
next
  assume "\<exists>rest. s = ''+CSQ: '' @ g @ '','' @ rest \<and> g \<noteq> [] \<and> list_all isDigit g"
  then obtain rest where r: "s = ''+CSQ: '' @ g @ '','' @ rest" "g \<noteq> []" "list_all isDigit g"
    by auto
  have "\<not> isDigit CHR '',''" by (simp add: isDigit_def)
  then have "case '','' @ rest of [] \<Rightarrow> True | c # _ \<Rightarrow> \<not> isDigit c" by simp
  from takeWhile_run [OF r(3) this]
  have "takeWhile isDigit (g @ '','' @ rest) = g" "dropWhile isDigit (g @ '','' @ rest) = '','' @ rest"
    by simp_all
  with r(1,2) show "match_CSQ s = Some g"
    by (simp add: match_CSQ_def strip_prefix_def)
qed

lemma signal_at_match:
  "signal_at r n g \<longleftrightarrow> n \<le> length r \<and> match_CSQ (drop n r) = Some g"
  by (simp add: signal_at_def match_CSQ_iff)

lemma find_CSQ_first: "find_CSQ r = Some g \<longleftrightarrow> first_signal r g"
proof
  assume "find_CSQ r = Some g"
  then obtain n where n: "n \<le> length r" "match_CSQ (drop n r) = Some g"
    "\<forall>k < n. match_CSQ (drop k r) = None"
    unfolding find_CSQ_def leftmost_Some_iff by auto
  have "\<forall>k < n. \<forall>g'. \<not> signal_at r k g'"
    using n(3) by (simp add: signal_at_match)
  with n(1,2) show "first_signal r g"
    unfolding first_signal_def by (intro exI [of _ n]) (simp add: signal_at_match)
next
  assume "first_signal r g"
  then obtain n where n: "signal_at r n g" "\<forall>k < n. \<forall>g'. \<not> signal_at r k g'"
    unfolding first_signal_def by auto
  from n(1) have 1: "n \<le> length r" "match_CSQ (drop n r) = Some g"
    by (simp_all add: signal_at_match)
  have "\<forall>k < n. match_CSQ (drop k r) = None"
  proof (intro allI impI)
    fix k assume k: "k < n"
    then have "k \<le> length r" using 1(1) by simp
    with n(2) k have "\<forall>g'. match_CSQ (drop k r) \<noteq> Some g'" by (simp add: signal_at_match)
    then show "match_CSQ (drop k r) = None" by (cases "match_CSQ (drop k r)") auto
  qed
  with 1 show "find_CSQ r = Some g"
    unfolding find_CSQ_def leftmost_Some_iff by (intro exI [of _ n]) simp
qed

lemma find_CSQ_none: "find_CSQ r = None \<longleftrightarrow> (\<forall>g. \<not> first_signal r g)"
  using find_CSQ_first [of r] by (cases "find_CSQ r") auto

lemma Atoi_of_digits:
  assumes "g \<noteq> []" "list_all isDigit g"
  shows "Atoi g = (if dec_val g \<le> 2 ^ 63 - 1 then Some (dec_val g) else None)"
proof -
  obtain c r where g: "g = c # r" using assms(1) by (cases g) auto
  with assms(2) have "isDigit c" by simp
  then have c: "c \<noteq> CHR ''-''" "c \<noteq> CHR ''+''" by (auto simp: isDigit_def)
  have "0 \<le> dec_val g" unfolding dec_val_def
    using foldl_dec_nonneg [OF assms(2), of 0] by simp
  then have "- (2 ^ 63) \<le> dec_val g" by simp
  with c assms(2) g show ?thesis by (simp add: Atoi_def Let_def)
qed

lemma set_signal_first:
  assumes "first_signal resp g"
  shows "set_signal resp st =
           (if dec_val g \<le> 2 ^ 63 - 1
            then st\<lparr>SignalStrength := dec_val g, SignalStrengthDesc := signal_desc (dec_val g)\<rparr>
            else st)"
proof -
  from assms have f: "find_CSQ resp = Some g" by (simp add: find_CSQ_first)
  from find_CSQ_digits [OF f] have "g \<noteq> []" "list_all isDigit g" by simp_all
  from Atoi_of_digits [OF this] f show ?thesis by (simp add: set_signal_def)
qed

lemma set_signal_none: "\<forall>g. \<not> first_signal resp g \<Longrightarrow> set_signal resp st = st"
  by (simp add: find_CSQ_none [symmetric] set_signal_def)

lemma GetStatus_signal: "signal_fields_ok (fst (fst (GetStatus m w)))"
proof (cases "openPort m w")
  case (Pair e w1)
  show ?thesis
  proof (cases e)
    case None
    with Pair GetStatus_port_signal [of w1] show ?thesis
      by (simp add: GetStatus_def case_prod_beta)
  next
    case (Some a)
    with Pair show ?thesis by (simp add: GetStatus_def)
  qed
qed

lemma signal_desc_table:
  "signal_desc v =
     (if v = 99 then ''unknown'' else if v < 10 then ''weak'' else if v < 20 then ''fair''
      else if v < 30 then ''good'' else ''excellent'')"
  by (simp add: signal_desc_def)

lemma set_signal_parsed:
  "find_CSQ resp = Some g \<Longrightarrow> Atoi g = Some val \<Longrightarrow>
     SignalStrength (set_signal resp st) = val \<and>
     SignalStrengthDesc (set_signal resp st) = signal_desc val"
  by (simp add: set_signal_def)

text \<open>
  C8, as the code has it. The signal step of \<open>GetStatus\<close> changes the status only when
  the answer to \<open>AT+CSQ\<close> holds the pattern and its number is an \<open>int\<close>; it then
  stores the number and its bucket: 99 is unknown, below 10 is weak, below 20 fair, below
  30 good, anything else excellent. So in every \<open>Status\<close> that \<open>GetStatus\<close> returns,
  either no value was taken (the strength is 0 and the description is the empty string),
  or the description is the bucket of the strength and one of the five descriptions. And
  when the call gets to the signal query and reads the answer \<open>resp\<close>, that answer
  decides: if the pattern matches somewhere, with the digits \<open>g\<close> at the first place,
  and their number is in the range of a 64-bit \<open>int\<close>, the strength is that number and
  the description its bucket; if the pattern matches nowhere, or the number is out of
  range, the strength is 0 and the description is the empty string.
\<close>

theorem signal_desc_from_strength:
  "((SignalStrength (fst (fst (GetStatus m w))) = 0 \<and>
     SignalStrengthDesc (fst (fst (GetStatus m w))) = [])
    \<or> (0 \<le> SignalStrength (fst (fst (GetStatus m w))) \<and>
        SignalStrengthDesc (fst (fst (GetStatus m w))) =
          (let val = SignalStrength (fst (fst (GetStatus m w))) in
           if val = 99 then ''unknown'' else if val < 10 then ''weak''
           else if val < 20 then ''fair'' else if val < 30 then ''good'' else ''excellent'') \<and>
        SignalStrengthDesc (fst (fst (GetStatus m w))) \<in> signal_descs))
   \<and> (find_CSQ resp = Some g \<and> Atoi g = Some val \<longrightarrow>
        SignalStrength (set_signal resp st) = val \<and>
        SignalStrengthDesc (set_signal resp st) =
          (if val = 99 then ''unknown'' else if val < 10 then ''weak''
           else if val < 20 then ''fair'' else if val < 30 then ''good'' else ''excellent''))
   \<and> (fst (openPort m w) = None \<and>
       fst (GetStatus_first (snd (openPort m w))) = Inr st4 \<and>
       fst (sendAT (snd (GetStatus_first (snd (openPort m w)))) ''AT+CSQ'') = Inr resp \<longrightarrow>
        snd (fst (GetStatus m w)) = None
        \<and> (first_signal resp g \<and> dec_val g \<le> 2 ^ 63 - 1 \<longrightarrow>
             SignalStrength (fst (fst (GetStatus m w))) = dec_val g \<and>
             SignalStrengthDesc (fst (fst (GetStatus m w))) =
               (if dec_val g = 99 then ''unknown'' else if dec_val g < 10 then ''weak''
                else if dec_val g < 20 then ''fair'' else if dec_val g < 30 then ''good''
                else ''excellent''))
        \<and> ((\<forall>g'. \<not> first_signal resp g') \<or> (first_signal resp g \<and> 2 ^ 63 - 1 < dec_val g) \<longrightarrow>
             SignalStrength (fst (fst (GetStatus m w))) = 0 \<and>
             SignalStrengthDesc (fst (fst (GetStatus m w))) = []))"
proof (intro conjI)
  show "(SignalStrength (fst (fst (GetStatus m w))) = 0 \<and>
     SignalStrengthDesc (fst (fst (GetStatus m w))) = [])
    \<or> (0 \<le> SignalStrength (fst (fst (GetStatus m w))) \<and>
        SignalStrengthDesc (fst (fst (GetStatus m w))) =
          (let val = SignalStrength (fst (fst (GetStatus m w))) in
           if val = 99 then ''unknown'' else if val < 10 then ''weak''
           else if val < 20 then ''fair'' else if val < 30 then ''good'' else ''excellent'') \<and>
        SignalStrengthDesc (fst (fst (GetStatus m w))) \<in> signal_descs)"
    using GetStatus_signal [of m w]
    by (auto simp: signal_fields_ok_def signal_desc_table signal_descs_def Let_def)
next
  show "find_CSQ resp = Some g \<and> Atoi g = Some val \<longrightarrow>
        SignalStrength (set_signal resp st) = val \<and>
        SignalStrengthDesc (set_signal resp st) =
          (if val = 99 then ''unknown'' else if val < 10 then ''weak''
           else if val < 20 then ''fair'' else if val < 30 then ''good'' else ''excellent'')"
    using set_signal_parsed [of resp g val st] by (simp add: signal_desc_table)
next
  show "fst (openPort m w) = None \<and>
       fst (GetStatus_first (snd (openPort m w))) = Inr st4 \<and>
       fst (sendAT (snd (GetStatus_first (snd (openPort m w)))) ''AT+CSQ'') = Inr resp \<longrightarrow>
        snd (fst (GetStatus m w)) = None
        \<and> (first_signal resp g \<and> dec_val g \<le> 2 ^ 63 - 1 \<longrightarrow>
             SignalStrength (fst (fst (GetStatus m w))) = dec_val g \<and>
             SignalStrengthDesc (fst (fst (GetStatus m w))) =
               (if dec_val g = 99 then ''unknown'' else if dec_val g < 10 then ''weak''
                else if dec_val g < 20 then ''fair'' else if dec_val g < 30 then ''good''
                else ''excellent''))
        \<and> ((\<forall>g'. \<not> first_signal resp g') \<or> (first_signal resp g \<and> 2 ^ 63 - 1 < dec_val g) \<longrightarrow>
             SignalStrength (fst (fst (GetStatus m w))) = 0 \<and>
             SignalStrengthDesc (fst (fst (GetStatus m w))) = [])"
  proof
    assume a: "fst (openPort m w) = None \<and>
       fst (GetStatus_first (snd (openPort m w))) = Inr st4 \<and>
       fst (sendAT (snd (GetStatus_first (snd (openPort m w)))) ''AT+CSQ'') = Inr resp"
    then have e: "fst (GetStatus m w) = (set_signal resp st4, None)"
      using GetStatus_signal_step by blast
    from a have z: "SignalStrength st4 = 0 \<and> SignalStrengthDesc st4 = []"
      using GetStatus_first_signal by blast
    have 1: "first_signal resp g \<and> dec_val g \<le> 2 ^ 63 - 1 \<longrightarrow>
             SignalStrength (set_signal resp st4) = dec_val g \<and>
             SignalStrengthDesc (set_signal resp st4) =
               (if dec_val g = 99 then ''unknown'' else if dec_val g < 10 then ''weak''
                else if dec_val g < 20 then ''fair'' else if dec_val g < 30 then ''good''
                else ''excellent'')"
      using set_signal_first [of resp g st4] by (simp add: signal_desc_table)
    have 2: "(\<forall>g'. \<not> first_signal resp g') \<or> (first_signal resp g \<and> 2 ^ 63 - 1 < dec_val g) \<longrightarrow>
             SignalStrength (set_signal resp st4) = 0 \<and>
             SignalStrengthDesc (set_signal resp st4) = []"
      using set_signal_first [of resp g st4] set_signal_none [of resp st4] z by auto
    from 1 2 show "snd (fst (GetStatus m w)) = None
        \<and> (first_signal resp g \<and> dec_val g \<le> 2 ^ 63 - 1 \<longrightarrow>
             SignalStrength (fst (fst (GetStatus m w))) = dec_val g \<and>
             SignalStrengthDesc (fst (fst (GetStatus m w))) =
               (if dec_val g = 99 then ''unknown'' else if dec_val g < 10 then ''weak''
                else if dec_val g < 20 then ''fair'' else if dec_val g < 30 then ''good''
                else ''excellent''))
        \<and> ((\<forall>g'. \<not> first_signal resp g') \<or> (first_signal resp g \<and> 2 ^ 63 - 1 < dec_val g) \<longrightarrow>
             SignalStrength (fst (fst (GetStatus m w))) = 0 \<and>
             SignalStrengthDesc (fst (fst (GetStatus m w))) = [])"
      unfolding e by simp
  qed
qed

lemma GetStatus_25:
  "fst (GetStatus modem0 (script_status (''+CSQ: 25,99'' @ [CR, LF] @ ''OK''))) =
    (\<lparr>Connected = True, NetworkRegistered = True, SignalStrength = 25,
      SignalStrengthDesc = ''good'', Manufacturer = ''huawei'', Model = ''E3372''\<rparr>, None)"
  by code_simp

lemma echoed_facts:
  "fst (openPort modem0 (script_status csq_echoed)) = None"
  "fst (GetStatus_first (snd (openPort modem0 (script_status csq_echoed)))) =
     Inr \<lparr>Connected = True, NetworkRegistered = True, SignalStrength = 0,
          SignalStrengthDesc = [], Manufacturer = ''huawei'', Model = ''E3372''\<rparr>"
  "fst (sendAT (snd (GetStatus_first (snd (openPort modem0 (script_status csq_echoed)))))
     ''AT+CSQ'') = Inr csq_echoed"
  "find_CSQ csq_echoed = Some ''25''"
  "dec_val ''25'' = 25"
  by code_simp+

lemma first_signal_echoed: "first_signal csq_echoed ''25''"
  using echoed_facts(4) by (simp only: find_CSQ_first)

theorem signal_desc_from_strength_witness:
  "first_signal csq_echoed ''25''
   \<and> SignalStrength (fst (fst (GetStatus modem0 (script_status csq_echoed)))) = 25
   \<and> SignalStrengthDesc (fst (fst (GetStatus modem0 (script_status csq_echoed)))) = ''good''
   \<and> snd (fst (GetStatus modem0 (script_status csq_echoed))) = None"
  using signal_desc_from_strength [of modem0 "script_status csq_echoed" csq_echoed "''25''" 25
      Status_zero
      "\<lparr>Connected = True, NetworkRegistered = True, SignalStrength = 0,
        SignalStrengthDesc = [], Manufacturer = ''huawei'', Model = ''E3372''\<rparr>"]
    echoed_facts(1,2,3) first_signal_echoed
  unfolding echoed_facts(5) by simp

lemma signal_desc_examples:
  "signal_desc 5 = ''weak''" "signal_desc 15 = ''fair''" "signal_desc 25 = ''good''"
  "signal_desc 31 = ''excellent''" "signal_desc 99 = ''unknown''"
  by (simp_all add: signal_desc_def)

text \<open>
  The modem answers every command but has no signal value to give: the query succeeds,
  the modem is connected, and the description is the empty string, none of the five.
\<close>

theorem signal_desc_counterexample:
  "snd (fst (GetStatus modem0 (script_status ''ERROR''))) = None
   \<and> Connected (fst (fst (GetStatus modem0 (script_status ''ERROR''))))
   \<and> SignalStrengthDesc (fst (fst (GetStatus modem0 (script_status ''ERROR'')))) = []
   \<and> SignalStrengthDesc (fst (fst (GetStatus modem0 (script_status ''ERROR'')))) \<notin> signal_descs
   \<and> SignalStrengthDesc (fst (fst (GetStatus modem0 (script_status ''ERROR''))))
       \<noteq> signal_desc (SignalStrength (fst (fst (GetStatus modem0 (script_status ''ERROR'')))))"
  by code_simp


subsection \<open>Every run keeps the queue well formed\<close>

lemma set_update_sub: "set (AList.update k v al) \<subseteq> insert (k, v) (set al)"
  by (induction al) auto

lemma set_delete_sub: "set (AList.delete k al) \<subseteq> set al"
  by (induction al) auto

lemma New_inv: "New m n = Some q \<Longrightarrow> queue_inv q"
  by (auto simp: New_def queue_inv_def heap_ok_def chan_ok_def store_ok_def worker_ok_def
        enqueues_ok_def split: if_splits)

text \<open>A call of \<open>Enqueue\<close> that nothing interrupts, in one piece.\<close>

lemma Enqueue_unfold:
  "Enqueue q rnd phone message now1 now2 =
     (let job = \<lparr>ID = generateID rnd, Phone = phone, Message = message,
                 Status = StatusQueued, Result = None, Job.Error = [],
                 CreatedAt = now1, UpdatedAt = now2\<rparr>;
          p = length (job_heap q);
          q1 = q\<lparr>job_heap := job_heap q @ [job],
                 store := AList.update (ID job) p (store q),
                 enqueues := AList.delete p (enqueues q)\<rparr>
      in if worker q = Parked then ((Some p, True), q1\<lparr>worker := Taken p\<rparr>)
         else if length (jobs q) < capacity q then ((Some p, True), q1\<lparr>jobs := jobs q @ [p]\<rparr>)
         else ((None, False), q1\<lparr>store := AList.delete (ID job) (store q1)\<rparr>))"
  by (simp add: Enqueue_def Enqueue_insert_def Enqueue_select_def Enqueue_return_def Let_def
        delete_update_same)

lemma Enqueue_insert_inv:
  assumes "queue_inv q"
  shows "queue_inv (snd (Enqueue_insert q rnd phone message now1 now2))"
proof -
  from assms have h: "heap_ok q" and c: "chan_ok q" and s: "store_ok q" and w: "worker_ok q"
    and e: "enqueues_ok q" by (simp_all add: queue_inv_def)
  let ?q = "snd (Enqueue_insert q rnd phone message now1 now2)"
  have "heap_ok ?q" using h
    by (auto simp: Enqueue_insert_def Let_def heap_ok_def nth_append terminal_def)
  moreover have "chan_ok ?q" using c
    by (auto simp: Enqueue_insert_def Let_def chan_ok_def nth_append)
  moreover have "store_ok ?q"
    using s set_update_sub [of "generateID rnd" "length (job_heap q)" "store q"]
    by (auto simp: Enqueue_insert_def Let_def store_ok_def less_Suc_eq)
  moreover have "worker_ok ?q" using w
    by (auto simp: Enqueue_insert_def Let_def worker_ok_def nth_append split: worker_pc.splits)
  moreover have "enqueues_ok ?q" using e c w
    by (auto simp: Enqueue_insert_def Let_def enqueues_ok_def chan_ok_def worker_ok_def
          update_conv' nth_append)
  ultimately show ?thesis by (simp add: queue_inv_def)
qed

lemma Enqueue_select_inv:
  assumes "queue_inv q" "map_of (enqueues q) job = Some Inserted"
  shows "queue_inv (snd (Enqueue_select q job))"
proof -
  from assms have h: "heap_ok q" and c: "chan_ok q" and s: "store_ok q" and w: "worker_ok q"
    and e: "enqueues_ok q" by (simp_all add: queue_inv_def)
  from e assms(2) have j: "job < length (job_heap q)" "job \<notin> set (jobs q)"
    "worker q \<noteq> Taken job" "worker q \<noteq> InFlight job" "Status (job_heap q ! job) = StatusQueued"
    by (simp_all add: enqueues_ok_def)
  let ?q = "snd (Enqueue_select q job)"
  have "heap_ok ?q" using h by (auto simp: Enqueue_select_def heap_ok_def)
  moreover have "chan_ok ?q" using c j by (auto simp: Enqueue_select_def chan_ok_def)
  moreover have "store_ok ?q"
    using s set_delete_sub [of "ID (job_heap q ! job)" "store q"]
    by (auto simp: Enqueue_select_def store_ok_def)
  moreover have "worker_ok ?q" using w j c
    by (auto simp: Enqueue_select_def worker_ok_def chan_ok_def split: worker_pc.splits)
  moreover have "enqueues_ok ?q" using e
    by (auto simp: Enqueue_select_def enqueues_ok_def update_conv' delete_conv'
          split: if_splits)
  ultimately show ?thesis by (simp add: queue_inv_def)
qed

lemma Enqueue_return_inv:
  assumes "queue_inv q"
  shows "queue_inv (snd (Enqueue_return q job))"
  using assms
  by (auto simp: Enqueue_return_def queue_inv_def heap_ok_def chan_ok_def store_ok_def
        worker_ok_def enqueues_ok_def delete_conv' split: worker_pc.splits if_splits)

lemma Enqueue_insert_enqueues:
  "map_of (enqueues (snd (Enqueue_insert q rnd phone message now1 now2)))
     (fst (Enqueue_insert q rnd phone message now1 now2)) = Some Inserted"
  by (simp add: Enqueue_insert_def Let_def update_conv')

lemma Enqueue_inv:
  assumes "queue_inv q"
  shows "queue_inv (snd (Enqueue q rnd phone message now1 now2))"
proof -
  obtain job q1 where i: "Enqueue_insert q rnd phone message now1 now2 = (job, q1)"
    by (cases "Enqueue_insert q rnd phone message now1 now2")
  obtain ok q2 where s: "Enqueue_select q1 job = (ok, q2)" by (cases "Enqueue_select q1 job")
  from Enqueue_insert_inv [OF assms, of rnd phone message now1 now2] i
  have 1: "queue_inv q1" by simp
  from Enqueue_insert_enqueues [of q rnd phone message now1 now2] i
  have "map_of (enqueues q1) job = Some Inserted" by simp
  from Enqueue_select_inv [OF 1 this] s have 2: "queue_inv q2" by simp
  from Enqueue_return_inv [OF 2, of job] i s 2 show ?thesis
    by (simp add: Enqueue_def)
qed

lemma Get_inv:
  assumes "queue_inv q"
  shows "queue_inv (snd (Get q jid))"
proof (cases "map_of (store q) jid")
  case None
  with assms show ?thesis by (simp add: Get_def)
next
  case (Some p)
  from assms have h: "heap_ok q" and c: "chan_ok q" and s: "store_ok q" and w: "worker_ok q"
    and e: "enqueues_ok q" by (simp_all add: queue_inv_def)
  from Some have "(jid, p) \<in> set (store q)" by (rule map_of_SomeD)
  with s have p: "p < length (job_heap q)" by (auto simp: store_ok_def)
  let ?q = "snd (Get q jid)"
  have "heap_ok ?q" using h p Some
    by (auto simp: Get_def Let_def heap_ok_def nth_append less_Suc_eq split: option.splits)
  moreover have "chan_ok ?q" using c Some
    by (auto simp: Get_def Let_def chan_ok_def nth_append split: option.splits)
  moreover have "store_ok ?q" using s Some set_delete_sub [of jid "store q"]
    by (auto simp: Get_def Let_def store_ok_def less_Suc_eq split: option.splits)
  moreover have "worker_ok ?q" using w Some
    by (auto simp: Get_def Let_def worker_ok_def nth_append split: option.splits worker_pc.splits)
  moreover have "enqueues_ok ?q" using e Some
    by (auto simp: Get_def Let_def enqueues_ok_def nth_append split: option.splits)
  ultimately show ?thesis by (simp add: queue_inv_def)
qed

lemma worker_receive_inv:
  assumes "queue_inv q"
  shows "queue_inv (worker_receive q)"
  using assms
  by (auto simp: queue_inv_def worker_receive_def heap_ok_def chan_ok_def store_ok_def
        worker_ok_def enqueues_ok_def split: worker_pc.splits list.splits)

lemma sending_inv:
  assumes "queue_inv q" "worker q = Taken p"
  shows "queue_inv ((process_sending q p now)\<lparr>worker := InFlight p\<rparr>)"
proof -
  from assms have h: "heap_ok q" and c: "chan_ok q" and s: "store_ok q" and w: "worker_ok q"
    and e: "enqueues_ok q" by (simp_all add: queue_inv_def)
  from w assms(2) have p: "p < length (job_heap q)" "p \<notin> set (jobs q)"
    "Status (job_heap q ! p) = StatusQueued" by (simp_all add: worker_ok_def)
  let ?q = "(process_sending q p now)\<lparr>worker := InFlight p\<rparr>"
  have "heap_ok ?q" using h p
    by (auto simp: process_sending_def heap_ok_def nth_list_update terminal_def)
  moreover have "chan_ok ?q" using c p
    by (auto simp: process_sending_def chan_ok_def nth_list_update)
  moreover have "store_ok ?q" using s by (auto simp: process_sending_def store_ok_def)
  moreover have "worker_ok ?q" using p by (auto simp: process_sending_def worker_ok_def)
  moreover have "enqueues_ok ?q" using e assms(2)
    by (auto simp: process_sending_def enqueues_ok_def nth_list_update)
  ultimately show ?thesis by (simp add: queue_inv_def)
qed

lemma process_call_frame: "\<exists>r md. process_call q p w = (r, q\<lparr>modem := md\<rparr>)"
  by (auto simp: process_call_def Let_def split: prod.splits)

lemma inv_modem: "queue_inv (q\<lparr>modem := md\<rparr>) = queue_inv q"
  by (simp add: queue_inv_def heap_ok_def chan_ok_def store_ok_def worker_ok_def
        enqueues_ok_def split: worker_pc.splits)

lemma done_inv:
  assumes "queue_inv q" "worker q = InFlight p"
  shows "queue_inv ((process_done q p r now)\<lparr>worker := Idle\<rparr>)"
proof -
  from assms have h: "heap_ok q" and c: "chan_ok q" and s: "store_ok q" and w: "worker_ok q"
    and e: "enqueues_ok q" by (simp_all add: queue_inv_def)
  from w assms(2) have p: "p < length (job_heap q)" "p \<notin> set (jobs q)"
    "Status (job_heap q ! p) = StatusSending" by (simp_all add: worker_ok_def)
  let ?q = "(process_done q p r now)\<lparr>worker := Idle\<rparr>"
  have "heap_ok ?q" using h p
    by (auto simp: process_done_def Let_def heap_ok_def nth_list_update terminal_def less_Suc_eq
          split: option.splits)
  moreover have "chan_ok ?q" using c p
    by (auto simp: process_done_def Let_def chan_ok_def nth_list_update split: option.splits)
  moreover have "store_ok ?q" using s by (auto simp: process_done_def Let_def store_ok_def)
  moreover have "worker_ok ?q" by (simp add: worker_ok_def)
  moreover have "enqueues_ok ?q" using e assms(2)
    by (auto simp: process_done_def Let_def enqueues_ok_def nth_list_update split: option.splits)
  ultimately show ?thesis by (simp add: queue_inv_def)
qed

lemma sweep_subset: "set (fst (sweep heap cutoff ids st n)) \<subseteq> set st"
proof (induction ids arbitrary: st n)
  case Nil
  then show ?case by simp
next
  case (Cons a ids)
  have "set (AList.delete a st) \<subseteq> set st" by (rule set_delete_sub)
  with Cons [of "AList.delete a st" "Suc n"] Cons [of st n] show ?case
    by (auto split: option.splits)
qed

lemma cleanup_inv:
  assumes "queue_inv q"
  shows "queue_inv (cleanup_pass q now)"
  using assms sweep_subset [of "job_heap q" "now - jobRetention" "map fst (store q)" "store q" 0]
  by (auto simp: queue_inv_def cleanup_pass_def Let_def heap_ok_def chan_ok_def store_ok_def
        worker_ok_def enqueues_ok_def split: worker_pc.splits)

lemma exec_inv: "queue_inv q \<Longrightarrow> queue_inv (exec q a)"
proof (cases a)
  case (DoDone w now)
  assume i: "queue_inv q"
  show ?thesis
  proof (cases "worker q")
    case (InFlight p)
    from process_call_frame [of q p w] obtain r md
      where c: "process_call q p w = (r, q\<lparr>modem := md\<rparr>)" by blast
    have "queue_inv (q\<lparr>modem := md\<rparr>)" "worker (q\<lparr>modem := md\<rparr>) = InFlight p"
      using i InFlight by (simp_all add: inv_modem)
    from done_inv [OF this] show ?thesis using DoDone InFlight c by simp
  qed (use i DoDone in simp_all)
qed (auto simp: Enqueue_inv Enqueue_insert_inv Enqueue_select_inv Enqueue_return_inv Get_inv
       worker_receive_inv cleanup_inv sending_inv split: worker_pc.splits)

lemma run_inv: "queue_inv q \<Longrightarrow> queue_inv (run q acts)"
  unfolding run_def by (induction acts arbitrary: q) (simp_all add: exec_inv)


lemma New_queue_one: "New (Simulator NewSimulator) 1 = Some queue_one"
  by (simp add: New_def queue_one_def)

lemma New_queue_none: "New (Simulator NewSimulator) 0 = Some queue_none"
  by (simp add: New_def queue_none_def)

lemma reachable_inv: "New m bufferSize = Some q0 \<Longrightarrow> queue_inv (run q0 acts)"
  by (simp add: New_inv run_inv)

lemma run_snoc: "run q (acts @ [a]) = exec (run q acts) a"
  by (simp add: run_def)

subsection \<open>The sweep\<close>

lemma sweep_lookup:
  "map_of (fst (sweep heap cutoff ids st n)) jid =
     (case map_of st jid of
        None \<Rightarrow> None
      | Some job \<Rightarrow>
          if jid \<in> set ids \<and> terminal (Status (heap ! job)) \<and> UpdatedAt (heap ! job) < cutoff
          then None else Some job)"
proof (induction ids arbitrary: st n)
  case Nil
  then show ?case by (simp split: option.splits)
next
  case (Cons a ids)
  show ?case
  proof (cases "map_of st a")
    case None
    with Cons [of st n] show ?thesis by (auto split: option.splits)
  next
    case (Some p)
    show ?thesis
    proof (cases "terminal (Status (heap ! p)) \<and> UpdatedAt (heap ! p) < cutoff")
      case True
      with Some have "fst (sweep heap cutoff (a # ids) st n)
          = fst (sweep heap cutoff ids (AList.delete a st) (Suc n))" by simp
      with Cons [of "AList.delete a st" "Suc n"] Some True show ?thesis
        by (cases "jid = a") (auto simp: delete_conv' split: option.splits)
    next
      case False
      with Some have "fst (sweep heap cutoff (a # ids) st n) = fst (sweep heap cutoff ids st n)"
        by auto
      with Cons [of st n] Some False show ?thesis
        by (cases "jid = a") (auto split: option.splits)
    qed
  qed
qed

text \<open>
  C7. One pass of the cleanup keeps the entries of the store except those whose job is
  completed (sent or failed) and was last updated before the cutoff, five minutes before
  the pass; these it deletes, all of them. So an entry whose job is queued or sending
  stays, and nothing but the store changes.
\<close>

theorem cleanup_pass_deletes_exactly:
  "map_of (store (cleanup_pass q now)) jid =
     (case map_of (store q) jid of
        None \<Rightarrow> None
      | Some job \<Rightarrow>
          if (Status (job_heap q ! job) = StatusSent \<or> Status (job_heap q ! job) = StatusFailed)
             \<and> UpdatedAt (job_heap q ! job) < now - 300000000000
          then None else Some job)
   \<and> job_heap (cleanup_pass q now) = job_heap q
   \<and> result_heap (cleanup_pass q now) = result_heap q
   \<and> jobs (cleanup_pass q now) = jobs q
   \<and> worker (cleanup_pass q now) = worker q"
proof -
  have "map_of (store q) jid = Some job \<Longrightarrow> jid \<in> set (map fst (store q))" for job
    by (metis map_of_SomeD image_eqI fst_conv set_map)
  then show ?thesis
    by (auto simp: cleanup_pass_def Let_def sweep_lookup terminal_def jobRetention_def
          split: option.splits)
qed

lemma store_two:
  "map_of (store (run queue_one acts_two)) (generateID rnd_a) = Some 0"
  "map_of (store (run queue_one acts_two)) (generateID rnd_b) = Some (Suc 0)"
  "Status (job_heap (run queue_one acts_two) ! 0) = StatusSent"
  "UpdatedAt (job_heap (run queue_one acts_two) ! 0) = 20"
  "Status (job_heap (run queue_one acts_two) ! Suc 0) = StatusQueued"
  by code_simp+

theorem cleanup_pass_deletes_exactly_witness:
  "map_of (store (cleanup_pass (run queue_one acts_two) 300000000021)) (generateID rnd_a) = None
   \<and> map_of (store (cleanup_pass (run queue_one acts_two) 300000000020)) (generateID rnd_a) = Some 0
   \<and> map_of (store (cleanup_pass (run queue_one acts_two) 900000000000)) (generateID rnd_b) = Some 1"
  using cleanup_pass_deletes_exactly [of "run queue_one acts_two" 300000000021 "generateID rnd_a"]
    cleanup_pass_deletes_exactly [of "run queue_one acts_two" 300000000020 "generateID rnd_a"]
    cleanup_pass_deletes_exactly [of "run queue_one acts_two" 900000000000 "generateID rnd_b"]
  by (simp add: store_two)

subsection \<open>Results and statuses along a run\<close>

lemma Enqueue_new_job:
  "fst (Enqueue q rnd phone message now1 now2) = (Some job, True) \<Longrightarrow>
     job = length (job_heap q) \<and>
     job_heap (snd (Enqueue q rnd phone message now1 now2)) ! job =
       \<lparr>ID = generateID rnd, Phone = phone, Message = message, Status = StatusQueued,
        Result = None, Job.Error = [], CreatedAt = now1, UpdatedAt = now2\<rparr>"
  by (auto simp: Enqueue_unfold Let_def split: if_splits)

lemma process_sending_job:
  "job < length (job_heap q) \<Longrightarrow>
     job_heap (process_sending q job now) ! job =
       (job_heap q ! job)\<lparr>Status := StatusSending, UpdatedAt := now\<rparr>"
  by (simp add: process_sending_def)

lemma process_done_job:
  "job < length (job_heap q) \<Longrightarrow>
     (Status (job_heap (process_done q job r now) ! job) = StatusSent
        \<or> Status (job_heap (process_done q job r now) ! job) = StatusFailed)
     \<and> Result (job_heap (process_done q job r now) ! job) = Some (length (result_heap q))
     \<and> result_heap (process_done q job r now) ! length (result_heap q) = fst r"
  by (simp add: process_done_def Let_def split: option.splits)

text \<open>
  C2. In every queue that a run reaches from \<open>New\<close>, a job in the store has a result
  exactly when its status is sent or failed. Step by step: the job that \<open>Enqueue\<close>
  creates is queued and has no result, the first critical section of \<open>process\<close> sets
  the status to sending and leaves the result as it is, and the second sets the status to
  sent or failed and the result together.
\<close>

theorem result_iff_completed:
  assumes "New m bufferSize = Some q0"
  shows
    "(map_of (store (run q0 acts)) jid = Some job \<longrightarrow>
        (Result (job_heap (run q0 acts) ! job) \<noteq> None)
          = (Status (job_heap (run q0 acts) ! job) \<in> {StatusSent, StatusFailed}))
     \<and> (fst (Enqueue q rnd phone message now1 now2) = (Some j, True) \<longrightarrow>
          Status (job_heap (snd (Enqueue q rnd phone message now1 now2)) ! j) = StatusQueued \<and>
          Result (job_heap (snd (Enqueue q rnd phone message now1 now2)) ! j) = None)
     \<and> (j < length (job_heap q) \<longrightarrow>
          Status (job_heap (process_sending q j now) ! j) = StatusSending \<and>
          Result (job_heap (process_sending q j now) ! j) = Result (job_heap q ! j))
     \<and> (j < length (job_heap q) \<longrightarrow>
          Status (job_heap (process_done q j r now) ! j) \<in> {StatusSent, StatusFailed} \<and>
          Result (job_heap (process_done q j r now) ! j) \<noteq> None)"
proof -
  have "queue_inv (run q0 acts)" using assms by (rule reachable_inv)
  then have h: "heap_ok (run q0 acts)" and s: "store_ok (run q0 acts)"
    by (simp_all add: queue_inv_def)
  have 1: "map_of (store (run q0 acts)) jid = Some job \<longrightarrow>
        (Result (job_heap (run q0 acts) ! job) \<noteq> None)
          = (Status (job_heap (run q0 acts) ! job) \<in> {StatusSent, StatusFailed})"
  proof
    assume "map_of (store (run q0 acts)) jid = Some job"
    then have "(jid, job) \<in> set (store (run q0 acts))" by (rule map_of_SomeD)
    with s have "job < length (job_heap (run q0 acts))" by (auto simp: store_ok_def)
    with h show "(Result (job_heap (run q0 acts) ! job) \<noteq> None)
          = (Status (job_heap (run q0 acts) ! job) \<in> {StatusSent, StatusFailed})"
      by (simp add: heap_ok_def terminal_def)
  qed
  have 2: "fst (Enqueue q rnd phone message now1 now2) = (Some j, True) \<longrightarrow>
          Status (job_heap (snd (Enqueue q rnd phone message now1 now2)) ! j) = StatusQueued \<and>
          Result (job_heap (snd (Enqueue q rnd phone message now1 now2)) ! j) = None"
    using Enqueue_new_job [of q rnd phone message now1 now2 j] by simp
  have 3: "j < length (job_heap q) \<longrightarrow>
          Status (job_heap (process_sending q j now) ! j) = StatusSending \<and>
          Result (job_heap (process_sending q j now) ! j) = Result (job_heap q ! j)"
    by (simp add: process_sending_job)
  have 4: "j < length (job_heap q) \<longrightarrow>
          Status (job_heap (process_done q j r now) ! j) \<in> {StatusSent, StatusFailed} \<and>
          Result (job_heap (process_done q j r now) ! j) \<noteq> None"
    using process_done_job [of j q r now] by auto
  from 1 2 3 4 show ?thesis by blast
qed

lemma store_sent:
  "map_of (store (run queue_one acts_sent)) (generateID rnd_a) = Some 0"
  by code_simp

theorem result_iff_completed_witness:
  "map_of (store (run queue_one acts_sent)) (generateID rnd_a) = Some 0
   \<and> Status (job_heap (run queue_one acts_sent) ! 0) = StatusSent
   \<and> Result (job_heap (run queue_one acts_sent) ! 0) \<noteq> None"
proof -
  have s: "Status (job_heap (run queue_one acts_sent) ! 0) = StatusSent" by code_simp
  from result_iff_completed [OF New_queue_one, of acts_sent "generateID rnd_a" 0] store_sent s
  show ?thesis by simp
qed


subsection \<open>The order of the statuses\<close>

text \<open>The two steps of the worker on the job it holds make up \<open>process\<close>.\<close>

lemma process_call_worker:
  "process_call (q\<lparr>worker := x\<rparr>) job w =
     (fst (process_call q job w), (snd (process_call q job w))\<lparr>worker := x\<rparr>)"
  by (simp add: process_call_def Let_def case_prod_beta)

lemma process_done_worker:
  "(process_done (q\<lparr>worker := x\<rparr>) job r now)\<lparr>worker := y\<rparr>
     = (process_done q job r now)\<lparr>worker := y\<rparr>"
  by (simp add: process_done_def Let_def)

lemma exec_process:
  "worker q = Taken job \<Longrightarrow>
     exec (exec q (DoSending now1)) (DoDone w now2) = (process q job w now1 now2)\<lparr>worker := Idle\<rparr>"
  by (simp add: process_def process_call_worker process_done_worker Let_def case_prod_beta)

lemma process_call_heap:
  "job_heap (snd (process_call q p w)) = job_heap q \<and>
   result_heap (snd (process_call q p w)) = result_heap q \<and>
   store (snd (process_call q p w)) = store q \<and>
   worker (snd (process_call q p w)) = worker q"
  using process_call_frame [of q p w] by auto

lemma exec_heap_length: "length (job_heap q) \<le> length (job_heap (exec q a))"
proof (cases a)
  case (DoDone w now)
  show ?thesis
  proof (cases "worker q")
    case (InFlight p)
    with DoDone process_call_heap [of q p w] show ?thesis
      by (simp add: process_done_def Let_def case_prod_beta)
  qed (use DoDone in simp_all)
qed (auto simp: Enqueue_unfold Enqueue_insert_def Enqueue_select_def Enqueue_return_def Get_def
       process_sending_def cleanup_pass_def Let_def worker_receive_def
       split: option.splits worker_pc.splits list.splits)

lemma exec_status_step:
  assumes "queue_inv q" "job < length (job_heap q)"
  shows "status_step (Status (job_heap q ! job)) (Status (job_heap (exec q a) ! job))"
proof (cases a)
  case (DoEnqueue rnd phone message now1 now2)
  with assms(2) show ?thesis
    by (simp add: Enqueue_unfold Let_def nth_append status_step_def)
next
  case (DoInsert rnd phone message now1 now2)
  with assms(2) show ?thesis
    by (simp add: Enqueue_insert_def Let_def nth_append status_step_def)
next
  case (DoSelect j)
  then show ?thesis by (simp add: Enqueue_select_def status_step_def)
next
  case (DoReturn j)
  then show ?thesis by (simp add: Enqueue_return_def status_step_def)
next
  case (DoGet jid)
  with assms(2) show ?thesis
    by (simp add: Get_def Let_def nth_append status_step_def split: option.splits)
next
  case DoReceive
  then show ?thesis
    by (simp add: worker_receive_def status_step_def split: worker_pc.splits list.splits)
next
  case (DoSending now)
  show ?thesis
  proof (cases "worker q")
    case (Taken p)
    with assms(1) have "Status (job_heap q ! p) = StatusQueued"
      by (simp add: queue_inv_def worker_ok_def)
    with Taken DoSending assms(2) show ?thesis
      by (cases "job = p") (simp_all add: process_sending_def status_step_def)
  qed (use DoSending in \<open>simp_all add: status_step_def\<close>)
next
  case (DoDone w now)
  show ?thesis
  proof (cases "worker q")
    case (InFlight p)
    with assms(1) have s: "Status (job_heap q ! p) = StatusSending"
      by (simp add: queue_inv_def worker_ok_def)
    obtain r q1 where c: "process_call q p w = (r, q1)" by (cases "process_call q p w")
    with process_call_heap [of q p w] have h: "job_heap q1 = job_heap q" by simp
    with InFlight DoDone assms(2) s c show ?thesis
      by (cases "job = p")
         (simp_all add: process_done_def Let_def status_step_def split: option.splits)
  qed (use DoDone in \<open>simp_all add: status_step_def\<close>)
next
  case (DoCleanup now)
  then show ?thesis by (simp add: cleanup_pass_def Let_def status_step_def)
qed

lemma status_later_step:
  "status_later s s' \<Longrightarrow> status_step s' s'' \<Longrightarrow> status_later s s''"
  by (auto simp: status_later_def status_step_def)

lemma run_heap_length: "length (job_heap q) \<le> length (job_heap (run q acts))"
proof (induction acts rule: rev_induct)
  case Nil
  then show ?case by (simp add: run_def)
next
  case (snoc a acts)
  with exec_heap_length [of "run q acts" a] show ?case by (simp add: run_snoc)
qed

lemma run_status_later:
  assumes "queue_inv q" "job < length (job_heap q)"
  shows "status_later (Status (job_heap q ! job)) (Status (job_heap (run q acts) ! job))"
proof (induction acts rule: rev_induct)
  case Nil
  then show ?case by (simp add: run_def status_later_def)
next
  case (snoc a acts)
  have "queue_inv (run q acts)" using assms(1) by (rule run_inv)
  moreover have "job < length (job_heap (run q acts))"
    using assms(2) run_heap_length [of q acts] by simp
  ultimately have "status_step (Status (job_heap (run q acts) ! job))
      (Status (job_heap (exec (run q acts) a) ! job))" by (rule exec_status_step)
  with snoc show ?case by (simp add: run_snoc status_later_step)
qed

lemma run_append: "run q (acts @ rest) = run (run q acts) rest"
  by (simp add: run_def)

text \<open>
  C3. Take a queue that a run reaches from \<open>New\<close> and a job in its memory. One more
  step of the queue (a call of \<open>Enqueue\<close> or \<open>Get\<close>, a step of the worker, a pass of
  the cleanup) leaves the job's status as it is, or moves it from queued to sending, or
  from sending to sent or failed; and over any further run the status is never left for an
  earlier one: a queued job may be anything later, a sending job stays sending or becomes
  sent or failed, a sent or failed job stays as it is.
\<close>

theorem status_order:
  assumes "New m bufferSize = Some q0" "job < length (job_heap (run q0 acts))"
  shows
    "status_step (Status (job_heap (run q0 acts) ! job))
       (Status (job_heap (exec (run q0 acts) a) ! job))
     \<and> status_later (Status (job_heap (run q0 acts) ! job))
         (Status (job_heap (run q0 (acts @ rest)) ! job))"
proof -
  have i: "queue_inv (run q0 acts)" using assms(1) by (rule reachable_inv)
  from exec_status_step [OF i assms(2)] run_status_later [OF i assms(2)]
  show ?thesis by (simp add: run_append)
qed

lemma statuses_sent:
  "length (job_heap (run queue_one (acts_taken))) = Suc 0"
  "Status (job_heap (run queue_one (acts_taken)) ! 0) = StatusQueued"
  "Status (job_heap (exec (run queue_one (acts_taken)) (DoSending 12)) ! 0) = StatusSending"
  "Status (job_heap (run queue_one (acts_taken @ [DoSending 12, DoDone (script_sent ''OK'') 20])) ! 0) = StatusSent"
  by code_simp+

theorem status_order_witness:
  "status_step StatusQueued StatusSending \<and> status_later StatusQueued StatusSent
   \<and> Status (job_heap (run queue_one (acts_taken)) ! 0) = StatusQueued
   \<and> Status (job_heap (exec (run queue_one (acts_taken)) (DoSending 12)) ! 0) = StatusSending
   \<and> Status (job_heap (run queue_one (acts_taken @ [DoSending 12, DoDone (script_sent ''OK'') 20])) ! 0) = StatusSent"
  using status_order [OF New_queue_one, of 0 "acts_taken" "DoSending 12" "[DoSending 12, DoDone (script_sent ''OK'') 20]"]
  unfolding statuses_sent by simp


subsection \<open>Admission\<close>










lemma delete_update_fresh:
  "k \<notin> fst ` set al \<Longrightarrow> AList.delete k (AList.update k v al) = al"
  by (simp add: delete_update_same)

lemma Get_unknown: "map_of (store q) jid = None \<Longrightarrow> Get q jid = (None, q)"
  by (simp add: Get_def)

lemma full_buffer_not_parked:
  "queue_inv q \<Longrightarrow> 0 < capacity q \<Longrightarrow> capacity q \<le> length (jobs q) \<Longrightarrow> worker q \<noteq> Parked"
  by (auto simp: queue_inv_def worker_ok_def)





subsection \<open>Reading a completed job\<close>

text \<open>
  C6. Take a queue that a run reaches from \<open>New\<close>, and an ID whose job in the store is
  sent or failed. \<open>Get\<close> returns a new job, not the stored one, that reads the same,
  result included, and the ID is no longer in the store, so a second \<open>Get\<close> reports
  not-found. Nothing else is deleted or changed: the entry of every other ID is as before,
  so are the channel and the worker, and every job that was in memory reads as before.
  Whatever the caller then writes into the job it holds and into that job's result, the
  job that was stored and every job still in the store read as before.
\<close>

theorem Get_completed:
  assumes "New m bufferSize = Some q0"
    "map_of (store (run q0 acts)) jid = Some job"
    "Status (job_heap (run q0 acts) ! job) = StatusSent
       \<or> Status (job_heap (run q0 acts) ! job) = StatusFailed"
  shows
    "\<exists>cp. fst (Get (run q0 acts) jid) = Some cp \<and> cp \<noteq> job
       \<and> job_view (snd (Get (run q0 acts) jid)) cp = job_view (run q0 acts) job
       \<and> map_of (store (snd (Get (run q0 acts) jid))) jid = None
       \<and> fst (Get (snd (Get (run q0 acts) jid)) jid) = None
       \<and> job_view (overwrite (snd (Get (run q0 acts) jid)) cp j v) job
           = job_view (run q0 acts) job
       \<and> (map_of (store (snd (Get (run q0 acts) jid))) jid' = Some p \<longrightarrow>
            map_of (store (run q0 acts)) jid' = Some p \<and>
            job_view (overwrite (snd (Get (run q0 acts) jid)) cp j v) p
              = job_view (run q0 acts) p)
       \<and> (jid' \<noteq> jid \<longrightarrow>
            map_of (store (snd (Get (run q0 acts) jid))) jid' = map_of (store (run q0 acts)) jid')
       \<and> jobs (snd (Get (run q0 acts) jid)) = jobs (run q0 acts)
       \<and> worker (snd (Get (run q0 acts) jid)) = worker (run q0 acts)
       \<and> enqueues (snd (Get (run q0 acts) jid)) = enqueues (run q0 acts)
       \<and> (p' < length (job_heap (run q0 acts)) \<longrightarrow>
            job_view (snd (Get (run q0 acts) jid)) p' = job_view (run q0 acts) p')"
proof -
  let ?q = "run q0 acts"
  have i: "queue_inv ?q" using assms(1) by (rule reachable_inv)
  then have h: "heap_ok ?q" and s: "store_ok ?q" by (simp_all add: queue_inv_def)
  from assms(2) have "(jid, job) \<in> set (store ?q)" by (rule map_of_SomeD)
  with s have job: "job < length (job_heap ?q)" by (auto simp: store_ok_def)
  from assms(3) have t: "terminal (Status (job_heap ?q ! job))" by (simp add: terminal_def)
  with h job obtain r where r: "Result (job_heap ?q ! job) = Some r" "r < length (result_heap ?q)"
    by (auto simp: heap_ok_def)
  let ?cp = "length (job_heap ?q)"
  let ?copy = "(job_heap ?q ! job)\<lparr>Result := Some (length (result_heap ?q))\<rparr>"
  let ?q' = "?q\<lparr>job_heap := job_heap ?q @ [?copy],
                 result_heap := result_heap ?q @ [result_heap ?q ! r],
                 store := AList.delete jid (store ?q)\<rparr>"
  have g: "Get ?q jid = (Some ?cp, ?q')"
    using assms(2) r t by (simp add: Get_def Let_def)
  have old: "job_view (overwrite ?q' ?cp j v) p' = job_view ?q p'"
    if "p' < length (job_heap ?q)" for p'
  proof -
    from h that have "\<forall>x. Result (job_heap ?q ! p') = Some x \<longrightarrow> x < length (result_heap ?q)"
      by (simp add: heap_ok_def)
    with that show ?thesis
      by (cases "Result (job_heap ?q ! p')")
         (auto simp: job_view_def overwrite_def Let_def nth_append)
  qed
  have 1: "job_view ?q' ?cp = job_view ?q job"
    using r by (simp add: job_view_def Let_def nth_append)
  have 2: "map_of (store ?q') jid = None" by (simp add: delete_conv')
  from Get_unknown [OF 2] have 3: "fst (Get ?q' jid) = None" by simp
  have 4: "map_of (store ?q') jid' = Some p \<longrightarrow>
            map_of (store ?q) jid' = Some p \<and> job_view (overwrite ?q' ?cp j v) p = job_view ?q p"
  proof
    assume a: "map_of (store ?q') jid' = Some p"
    then have m: "map_of (store ?q) jid' = Some p"
      by (cases "jid' = jid") (simp_all add: delete_conv')
    then have "(jid', p) \<in> set (store ?q)" by (rule map_of_SomeD)
    with s have "p < length (job_heap ?q)" by (auto simp: store_ok_def)
    with old m show "map_of (store ?q) jid' = Some p \<and>
        job_view (overwrite ?q' ?cp j v) p = job_view ?q p" by simp
  qed
  from job have 5: "?cp \<noteq> job" by simp
  have 6: "jid' \<noteq> jid \<longrightarrow> map_of (store ?q') jid' = map_of (store ?q) jid'"
    by (simp add: delete_conv')
  have 7: "jobs ?q' = jobs ?q \<and> worker ?q' = worker ?q \<and> enqueues ?q' = enqueues ?q" by simp
  have 8: "p' < length (job_heap ?q) \<longrightarrow> job_view ?q' p' = job_view ?q p'"
  proof
    assume p': "p' < length (job_heap ?q)"
    with h have "\<forall>x. Result (job_heap ?q ! p') = Some x \<longrightarrow> x < length (result_heap ?q)"
      by (simp add: heap_ok_def)
    with p' show "job_view ?q' p' = job_view ?q p'"
      by (cases "Result (job_heap ?q ! p')") (auto simp: job_view_def Let_def nth_append)
  qed
  show ?thesis
    unfolding g fst_conv snd_conv
    using 1 2 3 4 5 6 7 8 old [OF job] by blast
qed

lemma status_two: "Status (job_heap (run queue_one acts_two) ! 0) = StatusSent"
  by code_simp

lemma ids_differ: "generateID rnd_b \<noteq> generateID rnd_a"
  by code_simp

theorem Get_completed_witness:
  "map_of (store (run queue_one acts_two)) (generateID rnd_a) = Some 0
   \<and> Status (job_heap (run queue_one acts_two) ! 0) = StatusSent
   \<and> (\<exists>cp. fst (Get (run queue_one acts_two) (generateID rnd_a)) = Some cp \<and> cp \<noteq> 0
         \<and> job_view (snd (Get (run queue_one acts_two) (generateID rnd_a))) cp
             = job_view (run queue_one acts_two) 0
         \<and> fst (Get (snd (Get (run queue_one acts_two) (generateID rnd_a))) (generateID rnd_a))
             = None
         \<and> map_of (store (snd (Get (run queue_one acts_two) (generateID rnd_a)))) (generateID rnd_b)
             = Some 1)"
proof -
  have t: "Status (job_heap (run queue_one acts_two) ! 0) = StatusSent
       \<or> Status (job_heap (run queue_one acts_two) ! 0) = StatusFailed"
    using status_two by simp
  have b: "map_of (store (run queue_one acts_two)) (generateID rnd_b) = Some 1"
    using store_two(2) by simp
  from Get_completed [OF New_queue_one store_two(1) t, of _ _ "generateID rnd_b"]
    store_two(1) status_two ids_differ b
  show ?thesis by metis
qed

end
